theory Spec2Isabelle
  imports Main "HOL-Library.AList"
begin

section \<open>The vmstat streaming parser (jc/parsers/vmstat\_s.py)\<close>

subsection \<open>Python values and exceptions\<close>

text \<open>
  The values a record of the parser holds: \<open>None\<close>, a text token, or (after
  normalization) an integer.
\<close>

datatype pyval = PNone | PStr string | PInt int

text \<open>
  The exceptions a line can raise. \<open>TypeError\<close>, \<open>IndexError\<close>, \<open>KeyError\<close> and
  \<open>ParseError\<close> are raised by the code under jc/parsers; \<open>ConversionFault\<close> and
  \<open>TimestampFault\<close> are the faults the collaborators in jc.utils raise.
\<close>

datatype exn =
    TypeError string
  | IndexError
  | KeyError string
  | ParseError string
  | ConversionFault string
  | TimestampFault string

type_synonym 'a result = "exn + 'a"

definition ebind :: "'a result \<Rightarrow> ('a \<Rightarrow> 'b result) \<Rightarrow> 'b result" where
  "ebind m f = (case m of Inl e \<Rightarrow> Inl e | Inr x \<Rightarrow> f x)"

text \<open>Python truthiness of a record value, and of a flag that starts as \<open>None\<close>.\<close>

fun truthy :: "pyval \<Rightarrow> bool" where
  "truthy PNone = False"
| "truthy (PStr s) = (s \<noteq> [])"
| "truthy (PInt i) = (i \<noteq> 0)"

fun flag :: "bool option \<Rightarrow> bool" where
  "flag None = False"
| "flag (Some b) = b"

subsection \<open>Strings\<close>

text \<open>
  The whitespace of \<open>str.strip\<close> and \<open>str.split\<close>: the code points below 256 for
  which \<open>str.isspace\<close> holds (a \<open>char\<close> is one code point in that range).
\<close>

definition isspace :: "char \<Rightarrow> bool" where
  "isspace c = (c \<in> set [CHR 0x09, CHR 0x0A, CHR 0x0B, CHR 0x0C, CHR 0x0D,
     CHR 0x1C, CHR 0x1D, CHR 0x1E, CHR 0x1F, CHR 0x20, CHR 0x85, CHR 0xA0])"

definition strip :: "string \<Rightarrow> string" where
  "strip s = rev (dropWhile isspace (rev (dropWhile isspace s)))"

definition startswith :: "string \<Rightarrow> string \<Rightarrow> bool" where
  "startswith s p = (take (length p) s = p)"

text \<open>\<open>sub in s\<close> on strings.\<close>

fun contains :: "string \<Rightarrow> string \<Rightarrow> bool" where
  "contains sub [] = (sub = [])"
| "contains sub (c # cs) = (startswith (c # cs) sub \<or> contains sub cs)"

text \<open>
  \<open>s.split(maxsplit=n)\<close> with no separator: leading whitespace is skipped, a token
  runs to the next whitespace, and once \<open>n\<close> splits are made the rest of the string
  (after its leading whitespace) is the last token. \<open>None\<close> is no limit.
\<close>

function split :: "nat option \<Rightarrow> string \<Rightarrow> string list" where
  "split n s =
     (let r = dropWhile isspace s in
      if r = [] then []
      else if n = Some 0 then [r]
      else takeWhile (\<lambda>c. \<not> isspace c) r
           # split (map_option (\<lambda>k. k - 1) n) (dropWhile (\<lambda>c. \<not> isspace c) r))"
  by pat_completeness auto
termination
proof (relation "measure (\<lambda>(n, s). length s)")
  show "wf (measure (\<lambda>(n, s). length s))" by simp
next
  fix n :: "nat option" and s r :: string
  assume r: "r = dropWhile isspace s" and ne: "r \<noteq> []"
  from ne obtain c cs where rc: "r = c # cs" by (cases r) auto
  have "\<not> isspace c" using r rc by (metis hd_dropWhile list.sel(1) ne)
  then have "length (dropWhile (\<lambda>c. \<not> isspace c) r) < length r"
    using rc by (simp add: le_imp_less_Suc length_dropWhile_le)
  also have "length r \<le> length s" using r by (simp add: length_dropWhile_le)
  finally show "((map_option (\<lambda>k. k - 1) n, dropWhile (\<lambda>c. \<not> isspace c) r), (n, s))
      \<in> measure (\<lambda>(n, s). length s)" by simp
qed

declare split.simps [simp del]

subsection \<open>Records and the collaborators of jc.utils\<close>

text \<open>
  A record is a Python dict with text keys; insertion order is kept, so it is an
  association list. \<open>d[k] = v\<close> is \<^const>\<open>AList.update\<close> (in place when the key
  exists, appended otherwise); \<open>d[k]\<close> raises \<open>KeyError\<close> on a missing key.
\<close>

type_synonym record_dict = "(string \<times> pyval) list"

definition getitem :: "record_dict \<Rightarrow> string \<Rightarrow> pyval result" where
  "getitem d k = (case map_of d k of None \<Rightarrow> Inl (KeyError k) | Some v \<Rightarrow> Inr v)"

text \<open>\<open>xs[i]\<close> on a list, for \<open>i \<ge> 0\<close>, and \<open>xs[-1]\<close>.\<close>

definition index :: "'a list \<Rightarrow> nat \<Rightarrow> 'a result" where
  "index xs i = (if i < length xs then Inr (xs ! i) else Inl IndexError)"

definition index_last :: "'a list \<Rightarrow> 'a result" where
  "index_last xs = (if xs = [] then Inl IndexError else Inr (last xs))"

text \<open>
  The functions of jc.utils are not among the source files. What they do is a parameter
  of the model, a value of \<open>utils\<close>:
  \<^item> \<open>to_int s\<close> is the integer the text \<open>s\<close> denotes for \<open>convert_to_int\<close>, if any;
  \<^item> \<open>bad_text s\<close> is what \<open>convert_to_int\<close> does with a text that denotes no integer:
    \<open>Some e\<close> when it raises \<open>e\<close>, \<open>None\<close> when it returns \<open>None\<close>;
  \<^item> \<open>timestamp s\<close> is what \<open>jc.utils.timestamp(s)\<close> gives for the instant string \<open>s\<close>:
    an exception, or the values of the attributes \<open>naive\<close> and \<open>utc\<close>.
\<close>

record ts =
  naive :: pyval
  utc :: pyval

record utils =
  to_int :: "string \<Rightarrow> int option"
  bad_text :: "string \<Rightarrow> exn option"
  timestamp :: "string \<Rightarrow> ts result"

text \<open>
  Modelled from the spec: \<open>jc.utils.convert_to_int\<close> is missing from the sources. From
  the spec's contract (sections 4.4, 6 and 8): null stays null, a text that denotes an
  integer is converted to it, and an integer that is already normalized is left as it
  is. For a text that denotes no integer the spec says a ConversionFault is raised
  (\<open>bad_text U s = Some (ConversionFault s)\<close>); a converter that tolerates such a text
  returns \<open>None\<close> (\<open>bad_text U s = None\<close>). The model covers both.
\<close>

definition convert_to_int :: "utils \<Rightarrow> pyval \<Rightarrow> pyval result" where
  "convert_to_int U v =
     (case v of
        PNone \<Rightarrow> Inr PNone
      | PStr s \<Rightarrow>
          (case to_int U s of
             Some i \<Rightarrow> Inr (PInt i)
           | None \<Rightarrow> (case bad_text U s of Some e \<Rightarrow> Inl e | None \<Rightarrow> Inr PNone))
      | PInt i \<Rightarrow> Inr (PInt i))"

text \<open>
  Modelled from the spec: the contract of \<open>jc.utils.timestamp\<close> (sections 4.4 and 6), as
  one value of the parameter \<open>timestamp\<close>: the instant string (date/time text, a blank,
  the zone text) resolves to a naive epoch, and to an aware epoch only if the zone text is
  exactly the UTC designator \<open>UTC\<close>; a string that does not resolve is a TimestampFault.
  The zone text is what follows the last blank of the instant string.
\<close>

definition zone_text :: "string \<Rightarrow> string" where
  "zone_text s = rev (takeWhile (\<lambda>c. c \<noteq> CHR '' '') (rev s))"

definition contract_timestamp :: "(string \<Rightarrow> int option) \<Rightarrow> (string \<Rightarrow> int) \<Rightarrow> string \<Rightarrow> ts result" where
  "contract_timestamp naive_epoch utc_epoch s =
     (case naive_epoch s of
        None \<Rightarrow> Inl (TimestampFault s)
      | Some n \<Rightarrow>
          Inr \<lparr>naive = PInt n,
               utc = (if zone_text s = ''UTC'' then PInt (utc_epoch s) else PNone)\<rparr>)"

text \<open>The text an f-string puts for a value: \<open>str(v)\<close>.\<close>

fun digits :: "nat \<Rightarrow> string" where
  "digits n = (if n < 10 then [char_of (48 + n)] else digits (n div 10) @ [char_of (48 + n mod 10)])"

declare digits.simps [simp del]

fun str :: "pyval \<Rightarrow> string" where
  "str PNone = ''None''"
| "str (PStr s) = s"
| "str (PInt i) = (if i < 0 then CHR ''-'' # digits (nat (- i)) else digits (nat i))"

subsection \<open>Normalization: \<open>_process\<close>\<close>

definition int_list :: "string list" where
  "int_list =
     [''runnable_procs'', ''uninterruptible_sleeping_procs'', ''virtual_mem_used'', ''free_mem'',
      ''buffer_mem'', ''cache_mem'', ''inactive_mem'', ''active_mem'', ''swap_in'', ''swap_out'',
      ''blocks_in'', ''blocks_out'', ''interrupts'', ''context_switches'', ''user_time'',
      ''system_time'', ''idle_time'', ''io_wait_time'', ''stolen_time'', ''total_reads'',
      ''merged_reads'', ''sectors_read'', ''reading_ms'', ''total_writes'', ''merged_writes'',
      ''sectors_written'', ''writing_ms'', ''current_io'', ''io_seconds'']"

text \<open>
  The loop \<open>for key in proc_data\<close>: the entries in order, each key of \<open>int_list\<close>
  converted in place; the first conversion that raises ends the loop.
\<close>

fun convert_fields :: "utils \<Rightarrow> record_dict \<Rightarrow> record_dict result" where
  "convert_fields U [] = Inr []"
| "convert_fields U ((k, v) # d) =
     ebind (if k \<in> set int_list then convert_to_int U v else Inr v)
       (\<lambda>v'. ebind (convert_fields U d) (\<lambda>d'. Inr ((k, v') # d')))"

definition process :: "utils \<Rightarrow> record_dict \<Rightarrow> record_dict result" where
  "process U proc_data =
     ebind (convert_fields U proc_data) (\<lambda>d.
     ebind (getitem d ''timestamp'') (\<lambda>t.
       if truthy t then
         ebind (getitem d ''timezone'') (\<lambda>z.
         ebind (timestamp U (str t @ '' '' @ str z)) (\<lambda>r.
           Inr (AList.update ''epoch_utc'' (utc r) (AList.update ''epoch'' (naive r) d))))
       else Inr d))"

subsection \<open>The parser state and the input\<close>

text \<open>
  The local variables of \<open>parse\<close> that live across lines. Each starts as \<open>None\<close>;
  \<open>procs\<close> and \<open>disk\<close> are only ever set to \<open>True\<close>.
\<close>

record pstate =
  procs :: "bool option"
  buff_cache :: "bool option"
  disk :: "bool option"
  tstamp :: "bool option"
  tz :: "string option"

definition init :: pstate where
  "init = \<lparr>procs = None, buff_cache = None, disk = None, tstamp = None, tz = None\<rparr>"

text \<open>
  An element of the input is a \<open>str\<close>, a \<open>bytes\<close> object (a line read from a binary
  stream) or any other object; the input itself is an iterable of elements, a \<open>str\<close>,
  a \<open>bytes\<close>, or an object with no \<open>__iter__\<close>.
\<close>

datatype py_elem = PyStr string | PyBytes string | PyOther

datatype py_data = NotIterable | DataStr string | DataBytes | Iterable "py_elem list"

datatype emitted = Success record_dict | Error exn py_elem

datatype ending = Exhausted | Raised exn

subsection \<open>Field extraction\<close>

definition tok :: "string list \<Rightarrow> nat \<Rightarrow> pyval result" where
  "tok line_list i = map_sum id PStr (index line_list i)"

text \<open>\<open>tz or None\<close>.\<close>

fun or_none :: "string option \<Rightarrow> pyval" where
  "or_none None = PNone"
| "or_none (Some s) = (if s = [] then PNone else PStr s)"

text \<open>
  A dict display evaluates its values in order; the first one that raises ends it.
\<close>

fun dict_display :: "(string \<times> pyval result) list \<Rightarrow> record_dict result" where
  "dict_display [] = Inr []"
| "dict_display ((k, e) # es) =
     ebind e (\<lambda>v. ebind (dict_display es) (\<lambda>d. Inr ((k, v) # d)))"

definition procs_fields :: "pstate \<Rightarrow> string list \<Rightarrow> (string \<times> pyval result) list" where
  "procs_fields st line_list =
     [(''runnable_procs'', tok line_list 0),
      (''uninterruptible_sleeping_procs'', tok line_list 1),
      (''virtual_mem_used'', tok line_list 2),
      (''free_mem'', tok line_list 3),
      (''buffer_mem'', if flag (buff_cache st) then tok line_list 4 else Inr PNone),
      (''cache_mem'', if flag (buff_cache st) then tok line_list 5 else Inr PNone),
      (''inactive_mem'', if \<not> flag (buff_cache st) then tok line_list 4 else Inr PNone),
      (''active_mem'', if \<not> flag (buff_cache st) then tok line_list 5 else Inr PNone),
      (''swap_in'', tok line_list 6),
      (''swap_out'', tok line_list 7),
      (''blocks_in'', tok line_list 8),
      (''blocks_out'', tok line_list 9),
      (''interrupts'', tok line_list 10),
      (''context_switches'', tok line_list 11),
      (''user_time'', tok line_list 12),
      (''system_time'', tok line_list 13),
      (''idle_time'', tok line_list 14),
      (''io_wait_time'', tok line_list 15),
      (''stolen_time'', tok line_list 16),
      (''timestamp'', if flag (tstamp st) then tok line_list 17 else Inr PNone),
      (''timezone'', Inr (or_none (tz st)))]"

definition disk_fields :: "pstate \<Rightarrow> string list \<Rightarrow> (string \<times> pyval result) list" where
  "disk_fields st line_list =
     [(''disk'', tok line_list 0),
      (''total_reads'', tok line_list 1),
      (''merged_reads'', tok line_list 2),
      (''sectors_read'', tok line_list 3),
      (''reading_ms'', tok line_list 4),
      (''total_writes'', tok line_list 5),
      (''merged_writes'', tok line_list 6),
      (''sectors_written'', tok line_list 7),
      (''writing_ms'', tok line_list 8),
      (''current_io'', tok line_list 9),
      (''io_seconds'', tok line_list 10),
      (''timestamp'', if flag (tstamp st) then tok line_list 11 else Inr PNone),
      (''timezone'', Inr (or_none (tz st)))]"

text \<open>
  The two blocks \<open>if procs:\<close> and \<open>if disk:\<close> of the loop body, starting from
  \<open>output_line = {}\<close>.
\<close>

definition extract_record :: "pstate \<Rightarrow> string \<Rightarrow> record_dict result" where
  "extract_record st line =
     ebind (if flag (procs st)
            then dict_display (procs_fields st (split (Some 17) (strip line)))
            else Inr [])
       (\<lambda>output_line.
          if flag (disk st)
          then dict_display (disk_fields st (split (Some 11) (strip line)))
          else Inr output_line)"

subsection \<open>One line of the loop\<close>

text \<open>The three header shapes the loop tests for, by the column names a line holds.\<close>

definition layout_a :: "string \<Rightarrow> bool" where
  "layout_a line = (contains ''swpd'' line \<and> contains ''free'' line \<and>
                    contains ''buff'' line \<and> contains ''cache'' line)"

definition layout_b :: "string \<Rightarrow> bool" where
  "layout_b line = (contains ''swpd'' line \<and> contains ''free'' line \<and>
                    contains ''inact'' line \<and> contains ''active'' line)"

definition disk_header :: "string \<Rightarrow> bool" where
  "disk_header line = (contains ''total'' line \<and> contains ''merged'' line \<and>
                       contains ''sectors'' line)"

text \<open>
  \<open>tz = line.strip().split()[-1] if tstamp else None\<close>, followed by \<open>continue\<close>.
\<close>

definition set_tz :: "pstate \<Rightarrow> string \<Rightarrow> pstate \<times> record_dict option result" where
  "set_tz st line =
     (if flag (tstamp st)
      then (case index_last (split None (strip line)) of
              Inl e \<Rightarrow> (st, Inl e)
            | Inr z \<Rightarrow> (st\<lparr>tz := Some z\<rparr>, Inr None))
      else (st\<lparr>tz := None\<rparr>, Inr None))"

text \<open>
  The end of the \<open>try\<close> block, for a line that is none of the above: the record is
  extracted; a non-empty record is yielded raw or normalized, an empty one is a
  \<open>ParseError\<close>.
\<close>

definition data_result :: "utils \<Rightarrow> bool \<Rightarrow> pstate \<Rightarrow> string \<Rightarrow> record_dict option result" where
  "data_result U raw st line =
     ebind (extract_record st line) (\<lambda>output_line.
       if output_line \<noteq> [] then
         (if raw then Inr (Some output_line) else map_sum id Some (process U output_line))
       else Inl (ParseError ''Not vmstat data''))"

text \<open>
  The body of the \<open>try\<close> block for one element: the new state, and \<open>Inr None\<close> for
  \<open>continue\<close>, \<open>Inr (Some r)\<close> for the record the line yields (raw, or normalized
  by \<open>_process\<close>), \<open>Inl e\<close> for an exception raised in the block.
\<close>

definition parse_line :: "utils \<Rightarrow> bool \<Rightarrow> pstate \<Rightarrow> py_elem \<Rightarrow> pstate \<times> record_dict option result" where
  "parse_line U raw st el =
     (case el of
        PyOther \<Rightarrow> (st, Inl (TypeError ''Input line must be a 'str' object.''))
      | PyBytes b \<Rightarrow> (st, Inl (TypeError ''Input line must be a 'str' object.''))
      | PyStr line \<Rightarrow>
          if strip line = [] then (st, Inr None)
          else if \<not> flag (procs st) \<and> \<not> flag (disk st) \<and> startswith line ''procs'' then
            (st\<lparr>procs := Some True, tstamp := Some (contains ''-timestamp-'' line)\<rparr>, Inr None)
          else if \<not> flag (procs st) \<and> \<not> flag (disk st) \<and> startswith line ''disk'' then
            (st\<lparr>disk := Some True, tstamp := Some (contains ''-timestamp-'' line)\<rparr>, Inr None)
          else if (flag (procs st) \<or> flag (disk st)) \<and>
                  (startswith line ''procs'' \<or> startswith line ''disk'') then
            (st, Inr None)
          else if layout_a line then set_tz (st\<lparr>buff_cache := Some True\<rparr>) line
          else if layout_b line then set_tz (st\<lparr>buff_cache := Some False\<rparr>) line
          else if disk_header line then set_tz st line
          else (st, data_result U raw st line))"

subsection \<open>The stream driver\<close>

text \<open>
  Modelled from the spec: \<open>jc.utils.stream_success\<close> and \<open>jc.utils.stream_error\<close> are
  missing from the sources. The spec (section 4.5): the success path yields a tagged
  Success value carrying the record, the failure path a tagged Error value with the
  fault and the raw line, and a switch of the caller governs whether an error is emitted
  inline and the stream continues, or ends the output sequence. The docstring of the
  parser names the switch: \<open>ignore_exceptions\<close>, "ignore parsing exceptions if True",
  and the error object "only exists if using -qq or ignore\_exceptions=True".
\<close>

definition stream_success :: "record_dict \<Rightarrow> bool \<Rightarrow> emitted" where
  "stream_success output_line ignore_exceptions = Success output_line"

definition stream_error :: "exn \<Rightarrow> bool \<Rightarrow> py_elem \<Rightarrow> emitted result" where
  "stream_error e ignore_exceptions line =
     (if ignore_exceptions then Inr (Error e line) else Inl e)"

text \<open>
  A run of the generator over a finite input: the state it ends in, the values it
  yields in order, and how it ends (the input exhausted, or an exception raised out of
  the generator).
\<close>

type_synonym run = "pstate \<times> emitted list \<times> ending"

definition final_state :: "run \<Rightarrow> pstate" where
  "final_state r = fst r"

definition outputs :: "run \<Rightarrow> emitted list" where
  "outputs r = fst (snd r)"

definition ending_of :: "run \<Rightarrow> ending" where
  "ending_of r = snd (snd r)"

definition yield :: "emitted \<Rightarrow> run \<Rightarrow> run" where
  "yield out r = (fst r, out # fst (snd r), snd (snd r))"

fun parse_loop :: "utils \<Rightarrow> bool \<Rightarrow> bool \<Rightarrow> pstate \<Rightarrow> py_elem list \<Rightarrow> run" where
  "parse_loop U raw ignore_exceptions st [] = (st, [], Exhausted)"
| "parse_loop U raw ignore_exceptions st (line # rest) =
     (case parse_line U raw st line of
        (st', Inr None) \<Rightarrow> parse_loop U raw ignore_exceptions st' rest
      | (st', Inr (Some r)) \<Rightarrow>
          yield (stream_success r ignore_exceptions) (parse_loop U raw ignore_exceptions st' rest)
      | (st', Inl e) \<Rightarrow>
          (case stream_error e ignore_exceptions line of
             Inl e' \<Rightarrow> (st', [], Raised e')
           | Inr out \<Rightarrow> yield out (parse_loop U raw ignore_exceptions st' rest)))"

text \<open>
  \<open>parse(data, raw, quiet, ignore_exceptions)\<close>. The compatibility notice that
  \<open>quiet\<close> suppresses is a warning on the side and returns nothing.
\<close>

definition parse :: "utils \<Rightarrow> py_data \<Rightarrow> bool \<Rightarrow> bool \<Rightarrow> bool \<Rightarrow> emitted list \<times> ending" where
  "parse U data raw quiet ignore_exceptions =
     (case data of
        Iterable lines \<Rightarrow> snd (parse_loop U raw ignore_exceptions init lines)
      | _ \<Rightarrow> ([], Raised (TypeError ''Input data must be a non-string iterable object.'')))"

text \<open>The call with the defaults of the signature: \<open>raw=False, quiet=False, ignore_exceptions=False\<close>.\<close>

definition parse_default :: "utils \<Rightarrow> py_data \<Rightarrow> emitted list \<times> ending" where
  "parse_default U data = parse U data False False False"

subsection \<open>The lines the loop consumes, and the states it goes through\<close>

definition is_blank :: "py_elem \<Rightarrow> bool" where
  "is_blank el =
     (case el of PyStr line \<Rightarrow> strip line = [] | PyBytes b \<Rightarrow> False | PyOther \<Rightarrow> False)"

text \<open>
  A marker or header line: a text line, not blank, that starts with \<open>procs\<close> or
  \<open>disk\<close> (the family marker, or a header row that repeats it), or that has one of
  the three header shapes.
\<close>

definition consumed :: "py_elem \<Rightarrow> bool" where
  "consumed el =
     (case el of
        PyStr line \<Rightarrow>
          strip line \<noteq> [] \<and>
          (startswith line ''procs'' \<or> startswith line ''disk'' \<or>
           layout_a line \<or> layout_b line \<or> disk_header line)
      | PyBytes b \<Rightarrow> False
      | PyOther \<Rightarrow> False)"

text \<open>Each element of the input with the state the loop is in when it reads it.\<close>

fun trace :: "utils \<Rightarrow> bool \<Rightarrow> pstate \<Rightarrow> py_elem list \<Rightarrow> (pstate \<times> py_elem) list" where
  "trace U raw st [] = []"
| "trace U raw st (line # rest) = (st, line) # trace U raw (fst (parse_line U raw st line)) rest"

text \<open>
  The number of tokens a data line needs so that every \<open>line_list[i]\<close> of the dict
  display is in range: 17 for the process family and 11 for the disk family, one more
  when the timestamp column is on.
\<close>

definition min_tokens :: "pstate \<Rightarrow> nat" where
  "min_tokens st =
     (if flag (procs st) then (if flag (tstamp st) then 18 else 17)
      else if flag (disk st) then (if flag (tstamp st) then 12 else 11)
      else 0)"

text \<open>
  Two concrete instances of the collaborators, for evaluating examples. In both, a text
  of decimal digits denotes its number, and every instant string resolves to the epoch
  0, by the contract above. \<open>demo_utils\<close> raises a ConversionFault for a text that
  denotes no integer, as the spec says; \<open>tolerant_utils\<close> returns \<open>None\<close> for it.
\<close>

definition decimal :: "string \<Rightarrow> int option" where
  "decimal s =
     (if s \<noteq> [] \<and> list_all (\<lambda>c. c \<in> set ''0123456789'') s
      then Some (int (foldl (\<lambda>a c. 10 * a + (of_char c - 48)) 0 s))
      else None)"

definition demo_utils :: utils where
  "demo_utils =
     \<lparr>to_int = decimal, bad_text = (\<lambda>s. Some (ConversionFault s)),
      timestamp = contract_timestamp (\<lambda>s. Some 0) (\<lambda>s. 0)\<rparr>"

definition tolerant_utils :: utils where
  "tolerant_utils =
     \<lparr>to_int = decimal, bad_text = (\<lambda>s. None),
      timestamp = contract_timestamp (\<lambda>s. Some 0) (\<lambda>s. 0)\<rparr>"

text \<open>
  The timestamp flag is only set together with the family, and a timezone code is only
  captured while the flag is on; the states the loop reaches from \<open>init\<close> have this
  shape.
\<close>

definition tz_guard :: "pstate \<Rightarrow> bool" where
  "tz_guard s = ((flag (tstamp s) \<longrightarrow> flag (procs s) \<or> flag (disk s)) \<and>
                 (tz s \<noteq> None \<longrightarrow> flag (tstamp s)))"

subsection \<open>The records of a data line\<close>

text \<open>
  The record the process block builds from the tokens of a line when every index of the
  dict display is in range, and the one the disk block builds.
\<close>

definition procs_record :: "pstate \<Rightarrow> string list \<Rightarrow> record_dict" where
  "procs_record st toks =
     [(''runnable_procs'', PStr (toks ! 0)),
      (''uninterruptible_sleeping_procs'', PStr (toks ! 1)),
      (''virtual_mem_used'', PStr (toks ! 2)),
      (''free_mem'', PStr (toks ! 3)),
      (''buffer_mem'', if flag (buff_cache st) then PStr (toks ! 4) else PNone),
      (''cache_mem'', if flag (buff_cache st) then PStr (toks ! 5) else PNone),
      (''inactive_mem'', if \<not> flag (buff_cache st) then PStr (toks ! 4) else PNone),
      (''active_mem'', if \<not> flag (buff_cache st) then PStr (toks ! 5) else PNone),
      (''swap_in'', PStr (toks ! 6)),
      (''swap_out'', PStr (toks ! 7)),
      (''blocks_in'', PStr (toks ! 8)),
      (''blocks_out'', PStr (toks ! 9)),
      (''interrupts'', PStr (toks ! 10)),
      (''context_switches'', PStr (toks ! 11)),
      (''user_time'', PStr (toks ! 12)),
      (''system_time'', PStr (toks ! 13)),
      (''idle_time'', PStr (toks ! 14)),
      (''io_wait_time'', PStr (toks ! 15)),
      (''stolen_time'', PStr (toks ! 16)),
      (''timestamp'', if flag (tstamp st) then PStr (toks ! 17) else PNone),
      (''timezone'', or_none (tz st))]"

definition disk_record :: "pstate \<Rightarrow> string list \<Rightarrow> record_dict" where
  "disk_record st toks =
     [(''disk'', PStr (toks ! 0)),
      (''total_reads'', PStr (toks ! 1)),
      (''merged_reads'', PStr (toks ! 2)),
      (''sectors_read'', PStr (toks ! 3)),
      (''reading_ms'', PStr (toks ! 4)),
      (''total_writes'', PStr (toks ! 5)),
      (''merged_writes'', PStr (toks ! 6)),
      (''sectors_written'', PStr (toks ! 7)),
      (''writing_ms'', PStr (toks ! 8)),
      (''current_io'', PStr (toks ! 9)),
      (''io_seconds'', PStr (toks ! 10)),
      (''timestamp'', if flag (tstamp st) then PStr (toks ! 11) else PNone),
      (''timezone'', or_none (tz st))]"

text \<open>
  The value a numeric text token has in a yielded record: the text itself in raw mode;
  after normalization the integer it denotes, and \<open>None\<close> when it denotes no integer
  (the converter then returned \<open>None\<close> for it; had it raised, the line would have
  yielded no record).
\<close>

definition emitted_value :: "utils \<Rightarrow> bool \<Rightarrow> string \<Rightarrow> pyval" where
  "emitted_value U raw t =
     (if raw then PStr t else (case to_int U t of Some i \<Rightarrow> PInt i | None \<Rightarrow> PNone))"

text \<open>A field of a record that holds a value other than \<open>None\<close>, and one that holds \<open>None\<close>.\<close>

definition non_null :: "record_dict \<Rightarrow> string \<Rightarrow> bool" where
  "non_null r k = (case map_of r k of None \<Rightarrow> False | Some v \<Rightarrow> v \<noteq> PNone)"

definition is_null :: "record_dict \<Rightarrow> string \<Rightarrow> bool" where
  "is_null r k = (map_of r k = Some PNone)"

text \<open>
  The two ways the memory columns of a process record can be filled: the buffer/cache
  pair holds values and the inactive/active pair is null, or the other way round.
\<close>

definition buffer_pair_only :: "record_dict \<Rightarrow> bool" where
  "buffer_pair_only r =
     (non_null r ''buffer_mem'' \<and> non_null r ''cache_mem'' \<and>
      is_null r ''inactive_mem'' \<and> is_null r ''active_mem'')"

definition inactive_pair_only :: "record_dict \<Rightarrow> bool" where
  "inactive_pair_only r =
     (is_null r ''buffer_mem'' \<and> is_null r ''cache_mem'' \<and>
      non_null r ''inactive_mem'' \<and> non_null r ''active_mem'')"

text \<open>
  The shape of the states the loop reaches from \<open>init\<close>: at most one family is set.
\<close>

definition wf_state :: "pstate \<Rightarrow> bool" where
  "wf_state st = (\<not> (flag (procs st) \<and> flag (disk st)))"

text \<open>
  A structurally valid data line in a state: a text line that is not blank, is no marker
  or header line, and has at least the number of tokens the family needs.
\<close>

definition data_line :: "pstate \<Rightarrow> string \<Rightarrow> bool" where
  "data_line st line =
     (\<not> is_blank (PyStr line) \<and> \<not> consumed (PyStr line) \<and>
      min_tokens st \<le> length (split None (strip line)))"

text \<open>
  The record extracted from a data line in the family of the state, and the token of
  the line that the \<open>timestamp\<close> field takes when the timestamp column is on.
\<close>

definition family_record :: "pstate \<Rightarrow> string \<Rightarrow> record_dict" where
  "family_record st line =
     (if flag (disk st) then disk_record st (split (Some 11) (strip line))
      else procs_record st (split (Some 17) (strip line)))"

definition timestamp_token :: "pstate \<Rightarrow> string \<Rightarrow> string" where
  "timestamp_token st line =
     (if flag (disk st) then split (Some 11) (strip line) ! 11
      else split (Some 17) (strip line) ! 17)"

text \<open>
  What the loop does with the rest of the input after one element: \<open>yielded r\<close> after
  a record, \<open>handled e\<close> after an exception \<open>e\<close> raised in the \<open>try\<close> block (the
  \<open>except\<close> clause), for the run \<open>k\<close> over the elements that follow.
\<close>

definition handled :: "exn \<Rightarrow> bool \<Rightarrow> py_elem \<Rightarrow> pstate \<Rightarrow> run \<Rightarrow> run" where
  "handled e ignore_exceptions line st k =
     (case stream_error e ignore_exceptions line of
        Inl e' \<Rightarrow> (st, [], Raised e')
      | Inr out \<Rightarrow> yield out k)"

definition normalized_step :: "utils \<Rightarrow> bool \<Rightarrow> pstate \<Rightarrow> string \<Rightarrow> run \<Rightarrow> run" where
  "normalized_step U ignore_exceptions st line k =
     (case process U (family_record st line) of
        Inr r \<Rightarrow> yield (stream_success r ignore_exceptions) k
      | Inl e \<Rightarrow> handled e ignore_exceptions (PyStr line) st k)"

text \<open>
  A text the converter does not raise on: it denotes an integer, or the converter
  returns \<open>None\<close> for it.
\<close>

definition convertible :: "utils \<Rightarrow> string \<Rightarrow> bool" where
  "convertible U s = (case to_int U s of Some i \<Rightarrow> True | None \<Rightarrow> bad_text U s = None)"

text \<open>
  When normalization of the record of a data line does not raise: the tokens of its
  numeric fields (17 in the process family, tokens 1 to 10 in the disk family) are all
  texts the converter does not raise on, and, when the timestamp column is on, the
  instant string made of the timestamp token and the timezone code resolves.
\<close>

definition numeric_tokens :: "pstate \<Rightarrow> string \<Rightarrow> string list" where
  "numeric_tokens st line =
     (if flag (disk st) then map (\<lambda>i. split (Some 11) (strip line) ! i) [1..<11]
      else map (\<lambda>i. split (Some 17) (strip line) ! i) [0..<17])"

definition resolves :: "utils \<Rightarrow> pstate \<Rightarrow> string \<Rightarrow> bool" where
  "resolves U st line =
     (case timestamp U (timestamp_token st line @ '' '' @ str (or_none (tz st))) of
        Inr res \<Rightarrow> True
      | Inl e \<Rightarrow> False)"

definition normalizable :: "utils \<Rightarrow> pstate \<Rightarrow> string \<Rightarrow> bool" where
  "normalizable U st line =
     (list_all (convertible U) (numeric_tokens st line) \<and>
      (if flag (tstamp st) then resolves U st line else True))"

section \<open>Properties\<close>

subsection \<open>Basic facts\<close>


lemma ebind_simps [simp]:
  "ebind (Inl e) f = Inl e" "ebind (Inr x) f = f x"
  by (simp_all add: ebind_def)

lemma split_nonempty: "split n s \<noteq> [] \<longleftrightarrow> dropWhile isspace s \<noteq> []"
  by (subst split.simps) (simp add: Let_def)

lemma strip_last: "strip s \<noteq> [] \<Longrightarrow> \<not> isspace (last (strip s))"
proof -
  assume ne: "strip s \<noteq> []"
  define t where "t = dropWhile isspace (rev (dropWhile isspace s))"
  have st: "strip s = rev t" by (simp add: strip_def t_def)
  with ne have "t \<noteq> []" by simp
  then have "\<not> isspace (hd t)" unfolding t_def by (rule hd_dropWhile)
  moreover have "last (rev t) = hd t" using \<open>t \<noteq> []\<close> by (simp add: last_rev)
  ultimately show ?thesis by (simp add: st)
qed

lemma strip_split_nonempty: "strip s \<noteq> [] \<Longrightarrow> split n (strip s) \<noteq> []"
proof -
  assume ne: "strip s \<noteq> []"
  then have "last (strip s) \<in> set (strip s)" by simp
  with strip_last[OF ne] have "\<exists>c\<in>set (strip s). \<not> isspace c" by blast
  then have "dropWhile isspace (strip s) \<noteq> []" by (simp add: dropWhile_eq_Nil_conv)
  then show ?thesis by (simp add: split_nonempty)
qed

lemma set_tz_result: "strip line \<noteq> [] \<Longrightarrow> snd (set_tz st line) = Inr None"
  using strip_split_nonempty[of line None]
  by (simp add: set_tz_def index_last_def)

lemma set_tz_state:
  "strip line \<noteq> [] \<Longrightarrow>
   fst (set_tz st line) =
     st\<lparr>tz := (if flag (tstamp st) then Some (last (split None (strip line))) else None)\<rparr>"
  using strip_split_nonempty[of line None]
  by (simp add: set_tz_def index_last_def)

lemma data_result_not_None: "data_result U raw st line \<noteq> Inr None"
  by (auto simp: data_result_def ebind_def map_sum_def split: sum.splits)

lemma parse_line_other:
  "parse_line U raw st PyOther = (st, Inl (TypeError ''Input line must be a 'str' object.''))"
  "parse_line U raw st (PyBytes b) = (st, Inl (TypeError ''Input line must be a 'str' object.''))"
  by (simp_all add: parse_line_def)

lemma parse_line_blank: "is_blank el \<Longrightarrow> parse_line U raw st el = (st, Inr None)"
  by (cases el) (simp_all add: parse_line_def is_blank_def)

lemma parse_line_consumed: "consumed el \<Longrightarrow> snd (parse_line U raw st el) = Inr None"
  by (cases el) (auto simp: parse_line_def consumed_def set_tz_result)

lemma parse_line_data:
  "\<not> is_blank (PyStr line) \<Longrightarrow> \<not> consumed (PyStr line) \<Longrightarrow>
   parse_line U raw st (PyStr line) = (st, data_result U raw st line)"
  by (auto simp: parse_line_def consumed_def is_blank_def)

lemma parse_line_None_iff:
  "snd (parse_line U raw st el) = Inr None \<longleftrightarrow> is_blank el \<or> consumed el"
proof (cases el)
  case (PyStr line)
  show ?thesis
  proof (cases "is_blank el \<or> consumed el")
    case True
    then show ?thesis using parse_line_blank[of el U raw st] parse_line_consumed[of el U raw st] by auto
  next
    case False
    then show ?thesis using parse_line_data[of line U raw st] data_result_not_None[of U raw st line]
      by (simp add: PyStr)
  qed
next
  case PyOther
  then show ?thesis by (simp add: parse_line_other is_blank_def consumed_def)
next
  case (PyBytes b)
  then show ?thesis by (simp add: parse_line_other is_blank_def consumed_def)
qed


lemma yield_simps [simp]:
  "final_state (yield out r) = final_state r"
  "outputs (yield out r) = out # outputs r"
  "ending_of (yield out r) = ending_of r"
  by (simp_all add: yield_def final_state_def outputs_def ending_of_def)

lemma run_simps [simp]:
  "final_state (st, outs, en) = st"
  "outputs (st, outs, en) = outs"
  "ending_of (st, outs, en) = en"
  by (simp_all add: final_state_def outputs_def ending_of_def)

declare parse_loop.simps(2) [simp del]

text \<open>One step of the loop, in terms of what \<open>parse_line\<close> returns.\<close>

lemma parse_loop_Cons:
  "parse_loop U raw ign st (l # ls) =
     (case snd (parse_line U raw st l) of
        Inr None \<Rightarrow> parse_loop U raw ign (fst (parse_line U raw st l)) ls
      | Inr (Some r) \<Rightarrow> yield (Success r) (parse_loop U raw ign (fst (parse_line U raw st l)) ls)
      | Inl e \<Rightarrow>
          if ign then yield (Error e l) (parse_loop U raw ign (fst (parse_line U raw st l)) ls)
          else (fst (parse_line U raw st l), [], Raised e))"
  by (cases "parse_line U raw st l")
     (simp add: parse_loop.simps(2) stream_success_def stream_error_def
           split: sum.splits option.splits)

lemma parse_loop_append:
  "parse_loop U raw ign st (xs @ ys) =
     (case ending_of (parse_loop U raw ign st xs) of
        Exhausted \<Rightarrow>
          (final_state (parse_loop U raw ign (final_state (parse_loop U raw ign st xs)) ys),
           outputs (parse_loop U raw ign st xs) @
             outputs (parse_loop U raw ign (final_state (parse_loop U raw ign st xs)) ys),
           ending_of (parse_loop U raw ign (final_state (parse_loop U raw ign st xs)) ys))
      | Raised e \<Rightarrow> parse_loop U raw ign st xs)"
proof (induction xs arbitrary: st)
  case Nil
  show ?case by (simp add: final_state_def outputs_def ending_of_def)
next
  case (Cons x xs)
  define st' where "st' = fst (parse_line U raw st x)"
  obtain a b c where r: "parse_loop U raw ign st' xs = (a, b, c)"
    by (cases "parse_loop U raw ign st' xs") auto
  have IH: "parse_loop U raw ign st' (xs @ ys) =
     (case c of
        Exhausted \<Rightarrow>
          (final_state (parse_loop U raw ign a ys), b @ outputs (parse_loop U raw ign a ys),
           ending_of (parse_loop U raw ign a ys))
      | Raised e \<Rightarrow> (a, b, c))"
    using Cons.IH[of st'] by (cases c) (simp_all add: r final_state_def outputs_def ending_of_def)
  have unf: "parse_loop U raw ign st (x # zs) =
     (case snd (parse_line U raw st x) of
        Inr None \<Rightarrow> parse_loop U raw ign st' zs
      | Inr (Some r) \<Rightarrow> yield (Success r) (parse_loop U raw ign st' zs)
      | Inl e \<Rightarrow>
          if ign then yield (Error e x) (parse_loop U raw ign st' zs)
          else (st', [], Raised e))" for zs
    unfolding st'_def by (rule parse_loop_Cons)
  have "parse_loop U raw ign st (x # (xs @ ys)) =
     (case ending_of (parse_loop U raw ign st (x # xs)) of
        Exhausted \<Rightarrow>
          (final_state (parse_loop U raw ign (final_state (parse_loop U raw ign st (x # xs))) ys),
           outputs (parse_loop U raw ign st (x # xs)) @
             outputs (parse_loop U raw ign (final_state (parse_loop U raw ign st (x # xs))) ys),
           ending_of (parse_loop U raw ign (final_state (parse_loop U raw ign st (x # xs))) ys))
      | Raised e \<Rightarrow> parse_loop U raw ign st (x # xs))"
    unfolding unf[of "xs @ ys"] unf[of xs] IH r
    by (cases c; cases "snd (parse_line U raw st x)"; cases ign)
       (auto simp: yield_def final_state_def outputs_def ending_of_def split: option.splits)
  then show ?case by simp
qed

lemma inline_ending: "ending_of (parse_loop U raw True st ls) = Exhausted"
  by (induction ls arbitrary: st)
     (simp_all add: parse_loop_Cons split: sum.splits option.splits)

lemma inline_final_state:
  "final_state (parse_loop U raw True st ls) = foldl (\<lambda>s l. fst (parse_line U raw s l)) st ls"
  by (induction ls arbitrary: st)
     (simp_all add: parse_loop_Cons split: sum.splits option.splits)

lemma inline_outputs_append:
  "outputs (parse_loop U raw True st (xs @ ys)) =
     outputs (parse_loop U raw True st xs) @
     outputs (parse_loop U raw True (final_state (parse_loop U raw True st xs)) ys)"
  by (simp add: parse_loop_append inline_ending)

lemma inline_outputs_Cons:
  "outputs (parse_loop U raw True st (l # ls)) =
     outputs (parse_loop U raw True st [l]) @
     outputs (parse_loop U raw True (fst (parse_line U raw st l)) ls)"
  using inline_outputs_append[of U raw st "[l]" ls] by (simp add: inline_final_state)

lemma inline_single_length:
  "length (outputs (parse_loop U raw True st [l])) = (if is_blank l \<or> consumed l then 0 else 1)"
  using parse_line_None_iff[of U raw st l]
  by (auto simp: parse_loop_Cons split: sum.splits option.splits)

lemma inline_outputs_trace:
  "outputs (parse_loop U raw True st ls) =
     concat (map (\<lambda>(s, l). outputs (parse_loop U raw True s [l])) (trace U raw st ls))"
proof (induction ls arbitrary: st)
  case Nil
  show ?case by simp
next
  case (Cons l ls)
  show ?case using inline_outputs_Cons[of U raw st l ls] by (simp add: Cons.IH)
qed

lemma consumed_not_blank: "consumed l \<Longrightarrow> \<not> is_blank l"
  by (cases l) (simp_all add: consumed_def is_blank_def)

lemma inline_outputs_length_filter:
  "length (outputs (parse_loop U raw True st ls)) =
     length (filter (\<lambda>l. \<not> is_blank l \<and> \<not> consumed l) ls)"
proof (induction ls arbitrary: st)
  case Nil
  show ?case by simp
next
  case (Cons l ls)
  show ?case using inline_outputs_Cons[of U raw st l ls] inline_single_length[of U raw st l]
    by (simp add: Cons.IH)
qed

lemma filter_split_count:
  "length (filter (\<lambda>l. \<not> is_blank l \<and> \<not> consumed l) ls) =
     length (filter (\<lambda>l. \<not> is_blank l) ls) - length (filter consumed ls)"
proof -
  have le: "length (filter consumed ls) \<le> length (filter (\<lambda>l. \<not> is_blank l) ls)" for ls
    by (induction ls) (auto dest: consumed_not_blank)
  show ?thesis
  proof (induction ls)
    case Nil show ?case by simp
  next
    case (Cons l ls)
    then show ?case using le[of ls] by (auto dest: consumed_not_blank simp: Suc_diff_le)
  qed
qed

text \<open>A line that raises leaves the state as it was.\<close>

lemma parse_line_fault_state:
  "snd (parse_line U raw st l) = Inl e \<Longrightarrow> fst (parse_line U raw st l) = st"
proof (cases l)
  case PyOther
  then show ?thesis by (simp add: parse_line_other)
next
  case (PyBytes b)
  then show ?thesis by (simp add: parse_line_other)
next
  case (PyStr line)
  assume f: "snd (parse_line U raw st l) = Inl e"
  then have "\<not> (is_blank l \<or> consumed l)" using parse_line_None_iff[of U raw st l] by auto
  then show ?thesis using parse_line_data[of line U raw st] PyStr by simp
qed

lemma parse_iterable:
  "parse U (Iterable ls) raw quiet ign = snd (parse_loop U raw ign init ls)"
  by (simp add: parse_def)

lemma inline_fault_outputs:
  assumes "snd (parse_line U raw (final_state (parse_loop U raw True st pre)) l) = Inl e"
  shows "outputs (parse_loop U raw True st (pre @ l # post)) =
         outputs (parse_loop U raw True st pre) @ Error e l #
         outputs (parse_loop U raw True (final_state (parse_loop U raw True st pre)) post)"
  using assms parse_line_fault_state[OF assms]
  by (simp add: inline_outputs_append[of U raw st pre "l # post"] parse_loop_Cons)

lemma propagate_fault:
  assumes "ending_of (parse_loop U raw False st pre) = Exhausted"
    and "snd (parse_line U raw (final_state (parse_loop U raw False st pre)) l) = Inl e"
  shows "parse_loop U raw False st (pre @ l # post) =
         (final_state (parse_loop U raw False st pre), outputs (parse_loop U raw False st pre), Raised e)"
  using assms parse_line_fault_state[OF assms(2)]
  by (simp add: parse_loop_append[of U raw False st pre "l # post"] parse_loop_Cons)


text \<open>The three things the loop can do with one element.\<close>

lemma parse_loop_skip:
  "parse_line U raw st l = (st', Inr None) \<Longrightarrow>
   parse_loop U raw ign st (l # ls) = parse_loop U raw ign st' ls"
  by (simp add: parse_loop_Cons)

lemma parse_loop_yield:
  "parse_line U raw st l = (st', Inr (Some r)) \<Longrightarrow>
   parse_loop U raw ign st (l # ls) = yield (Success r) (parse_loop U raw ign st' ls)"
  by (simp add: parse_loop_Cons)

lemma parse_loop_handled:
  "parse_line U raw st l = (st', Inl e) \<Longrightarrow>
   parse_loop U raw ign st (l # ls) = handled e ign l st' (parse_loop U raw ign st' ls)"
  by (simp add: parse_loop_Cons handled_def stream_error_def)

lemma handled_simps:
  "handled e True l st k = yield (Error e l) k"
  "handled e False l st k = (st, [], Raised e)"
  by (simp_all add: handled_def stream_error_def)

subsection \<open>Field extraction\<close>

lemma split_length_maxsplit:
  "length (split (Some k) s) = min (Suc k) (length (split None s))"
proof (induction "Some k" s arbitrary: k rule: split.induct)
  case (1 s)
  define r where "r = dropWhile isspace s"
  show ?case
  proof (cases "r = []")
    case True
    then show ?thesis by (simp add: split.simps[of _ s] r_def)
  next
    case ne: False
    show ?thesis
    proof (cases k)
      case 0
      then show ?thesis using ne by (simp add: split.simps[of _ s] r_def Let_def)
    next
      case (Suc j)
      have "length (split (Some j) (dropWhile (\<lambda>c. \<not> isspace c) r)) =
            min (Suc j) (length (split None (dropWhile (\<lambda>c. \<not> isspace c) r)))"
        using "1.hyps"[of r j] ne Suc by (simp add: r_def)
      then show ?thesis using ne Suc
        by (simp add: split.simps[of _ s] r_def[symmetric] Let_def)
    qed
  qed
qed

lemma dict_display_raises:
  assumes "(k, Inl e) \<in> set es" and "\<forall>(k', x) \<in> set es. \<forall>e'. x = Inl e' \<longrightarrow> e' = e"
  shows "dict_display es = Inl e"
  using assms
proof (induction es)
  case Nil
  then show ?case by simp
next
  case (Cons a es)
  obtain k' x where a: "a = (k', x)" by (cases a)
  show ?case
  proof (cases x)
    case (Inl e')
    then show ?thesis using Cons.prems a by auto
  next
    case (Inr v)
    then have "(k, Inl e) \<in> set es" using Cons.prems a by auto
    then have "dict_display es = Inl e" using Cons.IH Cons.prems by auto
    then show ?thesis using a Inr by simp
  qed
qed

lemma tok_cases: "tok toks i = (if i < length toks then Inr (PStr (toks ! i)) else Inl IndexError)"
  by (simp add: tok_def index_def)

lemma procs_fields_short:
  assumes "length toks < (if flag (tstamp st) then 18 else 17)"
  shows "dict_display (procs_fields st toks) = Inl IndexError"
proof (cases "length toks < 17")
  case True
  show ?thesis
    by (rule dict_display_raises[where k = "''stolen_time''"])
       (use True in \<open>auto simp: procs_fields_def tok_cases split: if_splits\<close>)
next
  case False
  then have "flag (tstamp st)" "\<not> 17 < length toks" using assms by (auto split: if_splits)
  then show ?thesis
    by (intro dict_display_raises[where k = "''timestamp''"])
       (auto simp: procs_fields_def tok_cases split: if_splits)
qed

lemma procs_fields_ok:
  assumes "(if flag (tstamp st) then 18 else 17) \<le> length toks"
  shows "dict_display (procs_fields st toks) = Inr (procs_record st toks)"
proof -
  have "17 \<le> length toks" "flag (tstamp st) \<longrightarrow> 17 < length toks" "toks \<noteq> []"
    using assms by (auto split: if_splits)
  then show ?thesis by (simp add: procs_fields_def procs_record_def tok_cases)
qed

lemma disk_fields_short:
  assumes "length toks < (if flag (tstamp st) then 12 else 11)"
  shows "dict_display (disk_fields st toks) = Inl IndexError"
proof (cases "length toks < 11")
  case True
  show ?thesis
    by (rule dict_display_raises[where k = "''io_seconds''"])
       (use True in \<open>auto simp: disk_fields_def tok_cases split: if_splits\<close>)
next
  case False
  then have "flag (tstamp st)" "\<not> 11 < length toks" using assms by (auto split: if_splits)
  then show ?thesis
    by (intro dict_display_raises[where k = "''timestamp''"])
       (auto simp: disk_fields_def tok_cases split: if_splits)
qed

lemma disk_fields_ok:
  assumes "(if flag (tstamp st) then 12 else 11) \<le> length toks"
  shows "dict_display (disk_fields st toks) = Inr (disk_record st toks)"
proof -
  have "11 \<le> length toks" "flag (tstamp st) \<longrightarrow> 11 < length toks" "toks \<noteq> []"
    using assms by (auto split: if_splits)
  then show ?thesis by (simp add: disk_fields_def disk_record_def tok_cases)
qed

subsection \<open>The state across lines\<close>

lemma parse_line_family_fixed:
  assumes "flag (procs st) \<or> flag (disk st)"
  shows "procs (fst (parse_line U raw st l)) = procs st \<and>
         disk (fst (parse_line U raw st l)) = disk st \<and>
         tstamp (fst (parse_line U raw st l)) = tstamp st"
proof (cases l)
  case PyOther
  then show ?thesis by (simp add: parse_line_other)
next
  case (PyBytes b)
  then show ?thesis by (simp add: parse_line_other)
next
  case (PyStr line)
  show ?thesis
  proof (cases "strip line = []")
    case True
    then show ?thesis by (simp add: PyStr parse_line_def)
  next
    case False
    then show ?thesis using assms
      by (auto simp: PyStr parse_line_def set_tz_state)
  qed
qed

lemma final_state_induct:
  assumes "P st" and "\<And>s l. P s \<Longrightarrow> P (fst (parse_line U raw s l))"
  shows "P (final_state (parse_loop U raw ign st ls))"
  using assms(1)
proof (induction ls arbitrary: st)
  case Nil
  then show ?case by simp
next
  case (Cons l ls)
  have "P (fst (parse_line U raw st l))" using Cons.prems by (rule assms(2))
  then have "P (final_state (parse_loop U raw ign (fst (parse_line U raw st l)) ls))"
    by (rule Cons.IH)
  then show ?case using \<open>P (fst (parse_line U raw st l))\<close>
    by (cases ign) (simp_all add: parse_loop_Cons split: sum.splits option.splits)
qed

lemma family_fixed:
  assumes "flag (procs st) \<or> flag (disk st)"
  shows "procs (final_state (parse_loop U raw ign st ls)) = procs st \<and>
         disk (final_state (parse_loop U raw ign st ls)) = disk st \<and>
         tstamp (final_state (parse_loop U raw ign st ls)) = tstamp st"
  by (rule final_state_induct[where P = "\<lambda>s. procs s = procs st \<and> disk s = disk st \<and> tstamp s = tstamp st"])
     (use assms parse_line_family_fixed in auto)

lemma parse_line_variant_kept:
  assumes "buff_cache st \<noteq> None"
  shows "buff_cache (fst (parse_line U raw st l)) \<noteq> None"
proof (cases l)
  case PyOther
  then show ?thesis using assms by (simp add: parse_line_other)
next
  case (PyBytes b)
  then show ?thesis using assms by (simp add: parse_line_other)
next
  case (PyStr line)
  show ?thesis using assms
    by (cases "strip line = []") (auto simp: PyStr parse_line_def set_tz_state)
qed

lemma variant_kept:
  "buff_cache st \<noteq> None \<Longrightarrow> buff_cache (final_state (parse_loop U raw ign st ls)) \<noteq> None"
  by (rule final_state_induct[where P = "\<lambda>s. buff_cache s \<noteq> None"])
     (simp_all add: parse_line_variant_kept)

lemma parse_line_tz_guard: "tz_guard st \<Longrightarrow> tz_guard (fst (parse_line U raw st l))"
proof (cases l)
  case PyOther
  assume "tz_guard st"
  then show ?thesis by (simp add: PyOther parse_line_other)
next
  case (PyBytes b)
  assume "tz_guard st"
  then show ?thesis by (simp add: PyBytes parse_line_other)
next
  case (PyStr line)
  assume "tz_guard st"
  then show ?thesis
    by (cases "strip line = []") (auto simp: PyStr parse_line_def set_tz_state tz_guard_def)
qed

lemma parse_line_tz_kept:
  assumes "tz_guard st" "tz st \<noteq> None"
  shows "tz (fst (parse_line U raw st l)) \<noteq> None"
proof (cases l)
  case PyOther
  then show ?thesis using assms by (simp add: parse_line_other)
next
  case (PyBytes b)
  then show ?thesis using assms by (simp add: parse_line_other)
next
  case (PyStr line)
  show ?thesis using assms
    by (cases "strip line = []") (auto simp: PyStr parse_line_def set_tz_state tz_guard_def)
qed

lemma tz_kept:
  assumes "tz_guard st" "tz st \<noteq> None"
  shows "tz (final_state (parse_loop U raw ign st ls)) \<noteq> None"
proof -
  have "tz_guard (final_state (parse_loop U raw ign st ls)) \<and>
        tz (final_state (parse_loop U raw ign st ls)) \<noteq> None"
    by (rule final_state_induct[where P = "\<lambda>s. tz_guard s \<and> tz s \<noteq> None"])
       (use assms parse_line_tz_guard parse_line_tz_kept in auto)
  then show ?thesis by simp
qed

lemma tz_guard_reachable: "tz_guard (final_state (parse_loop U raw ign init ls))"
  by (rule final_state_induct[where P = tz_guard])
     (simp_all add: parse_line_tz_guard, simp add: tz_guard_def init_def)

lemma marker_after_family:
  "flag (procs st) \<or> flag (disk st) \<Longrightarrow> startswith line ''procs'' \<or> startswith line ''disk'' \<Longrightarrow>
   parse_line U raw st (PyStr line) = (st, Inr None)"
  by (auto simp: parse_line_def)

lemma parse_line_header_state:
  assumes "strip line \<noteq> []" "\<not> startswith line ''procs''" "\<not> startswith line ''disk''"
  shows "fst (parse_line U raw st (PyStr line)) =
     (if layout_a line then fst (set_tz (st\<lparr>buff_cache := Some True\<rparr>) line)
      else if layout_b line then fst (set_tz (st\<lparr>buff_cache := Some False\<rparr>) line)
      else if disk_header line then fst (set_tz st line)
      else st)"
  using assms by (simp add: parse_line_def)

lemma set_tz_buff_cache: "strip line \<noteq> [] \<Longrightarrow> buff_cache (fst (set_tz st line)) = buff_cache st"
  by (simp add: set_tz_state)

lemma disk_record_ignores_variant:
  "flag (disk st) \<Longrightarrow> \<not> flag (procs st) \<Longrightarrow>
   data_result U raw (st\<lparr>buff_cache := b\<rparr>) line = data_result U raw st line"
  by (simp add: data_result_def extract_record_def disk_fields_def)

lemma parse_not_iterable:
  "data = NotIterable \<or> data = DataStr s \<or> data = DataBytes \<Longrightarrow>
   parse U data raw quiet ign =
     ([], Raised (TypeError ''Input data must be a non-string iterable object.''))"
  by (auto simp: parse_def)

subsection \<open>The result of a data line\<close>

lemma procs_data_result:
  assumes "flag (procs st)" "\<not> flag (disk st)"
  shows "data_result U raw st line =
     (if length (split None (strip line)) < min_tokens st then Inl IndexError
      else if raw then Inr (Some (procs_record st (split (Some 17) (strip line))))
      else map_sum id Some (process U (procs_record st (split (Some 17) (strip line)))))"
proof -
  let ?toks = "split (Some 17) (strip line)"
  have len: "length ?toks = min 18 (length (split None (strip line)))"
    by (simp add: split_length_maxsplit)
  have m: "min_tokens st = (if flag (tstamp st) then 18 else 17)"
    using assms by (simp add: min_tokens_def)
  show ?thesis
  proof (cases "length (split None (strip line)) < min_tokens st")
    case True
    then have "length ?toks < (if flag (tstamp st) then 18 else 17)"
      using len m by (auto split: if_splits)
    then show ?thesis using True assms
      by (simp add: data_result_def extract_record_def procs_fields_short)
  next
    case False
    then have "(if flag (tstamp st) then 18 else 17) \<le> length ?toks"
      using len m by (auto split: if_splits)
    then have "dict_display (procs_fields st ?toks) = Inr (procs_record st ?toks)"
      by (rule procs_fields_ok)
    moreover have "procs_record st ?toks \<noteq> []" by (simp add: procs_record_def)
    ultimately show ?thesis using False assms
      by (simp add: data_result_def extract_record_def)
  qed
qed

lemma disk_data_result:
  assumes "\<not> flag (procs st)" "flag (disk st)"
  shows "data_result U raw st line =
     (if length (split None (strip line)) < min_tokens st then Inl IndexError
      else if raw then Inr (Some (disk_record st (split (Some 11) (strip line))))
      else map_sum id Some (process U (disk_record st (split (Some 11) (strip line)))))"
proof -
  let ?toks = "split (Some 11) (strip line)"
  have len: "length ?toks = min 12 (length (split None (strip line)))"
    by (simp add: split_length_maxsplit)
  have m: "min_tokens st = (if flag (tstamp st) then 12 else 11)"
    using assms by (simp add: min_tokens_def)
  show ?thesis
  proof (cases "length (split None (strip line)) < min_tokens st")
    case True
    then have "length ?toks < (if flag (tstamp st) then 12 else 11)"
      using len m by (auto split: if_splits)
    then show ?thesis using True assms
      by (simp add: data_result_def extract_record_def disk_fields_short)
  next
    case False
    then have "(if flag (tstamp st) then 12 else 11) \<le> length ?toks"
      using len m by (auto split: if_splits)
    then have "dict_display (disk_fields st ?toks) = Inr (disk_record st ?toks)"
      by (rule disk_fields_ok)
    moreover have "disk_record st ?toks \<noteq> []" by (simp add: disk_record_def)
    ultimately show ?thesis using False assms
      by (simp add: data_result_def extract_record_def)
  qed
qed

lemma unset_data_result:
  "\<not> flag (procs st) \<Longrightarrow> \<not> flag (disk st) \<Longrightarrow>
   data_result U raw st line = Inl (ParseError ''Not vmstat data'')"
  by (simp add: data_result_def extract_record_def)

text \<open>Normalization, field by field.\<close>

lemma convert_fields_keys: "convert_fields U d = Inr d' \<Longrightarrow> map fst d' = map fst d"
proof (induction d arbitrary: d')
  case Nil
  then show ?case by simp
next
  case (Cons a d)
  obtain k v where a: "a = (k, v)" by (cases a)
  from Cons.prems a obtain v' d0 where
    "convert_fields U d = Inr d0" "d' = (k, v') # d0"
    by (auto simp: ebind_def split: sum.splits if_splits)
  then show ?case using Cons.IH a by simp
qed

lemma convert_fields_map_of:
  assumes "convert_fields U d = Inr d'" "map_of d k = Some v"
  shows "\<exists>v'. map_of d' k = Some v' \<and>
              (if k \<in> set int_list then convert_to_int U v = Inr v' else v' = v)"
  using assms
proof (induction d arbitrary: d')
  case Nil
  then show ?case by simp
next
  case (Cons a d)
  obtain k0 v0 where a: "a = (k0, v0)" by (cases a)
  from Cons.prems(1) a obtain v1 d0 where
    c: "(if k0 \<in> set int_list then convert_to_int U v0 else Inr v0) = Inr v1"
       "convert_fields U d = Inr d0" "d' = (k0, v1) # d0"
    by (auto simp: ebind_def split: sum.splits)
  show ?case
  proof (cases "k0 = k")
    case True
    then show ?thesis using c a Cons.prems(2) by (auto split: if_splits)
  next
    case False
    then have "map_of d k = Some v" using Cons.prems(2) a by simp
    from Cons.IH[OF c(2) this] show ?thesis using False c(3) by simp
  qed
qed

lemma convert_fields_map_of_None:
  assumes "convert_fields U d = Inr d'" "map_of d k = None"
  shows "map_of d' k = None"
proof -
  have "map fst d' = map fst d" using assms(1) by (rule convert_fields_keys)
  then have "fst ` set d' = fst ` set d" by (metis set_map)
  then show ?thesis using assms(2) by (simp add: map_of_eq_None_iff)
qed

lemma process_Inr:
  assumes "process U d = Inr r"
  shows "\<exists>d' t. convert_fields U d = Inr d' \<and> map_of d' ''timestamp'' = Some t \<and>
    (if truthy t
     then \<exists>z res. map_of d' ''timezone'' = Some z \<and>
        timestamp U (str t @ '' '' @ str z) = Inr res \<and>
        r = AList.update ''epoch_utc'' (utc res) (AList.update ''epoch'' (naive res) d')
     else r = d')"
  using assms
  by (auto simp: process_def ebind_def getitem_def split: sum.splits option.splits if_splits)

lemma process_map_of:
  assumes "process U d = Inr r" "map_of d k = Some v" "k \<noteq> ''epoch''" "k \<noteq> ''epoch_utc''"
  shows "\<exists>v'. map_of r k = Some v' \<and>
              (if k \<in> set int_list then convert_to_int U v = Inr v' else v' = v)"
proof -
  from process_Inr[OF assms(1)] obtain d' t where d: "convert_fields U d = Inr d'"
    and r: "if truthy t
     then \<exists>z res. map_of d' ''timezone'' = Some z \<and>
        timestamp U (str t @ '' '' @ str z) = Inr res \<and>
        r = AList.update ''epoch_utc'' (utc res) (AList.update ''epoch'' (naive res) d')
     else r = d'"
    by blast
  have "map_of r k = map_of d' k"
    using r assms(3,4) by (cases "truthy t") (auto simp: update_conv')
  then show ?thesis using convert_fields_map_of[OF d assms(2)] by simp
qed

lemma convert_text:
  "convert_to_int U (PStr t) = Inr v \<Longrightarrow> v = emitted_value U False t"
  by (auto simp: convert_to_int_def emitted_value_def split: option.splits)

lemma convert_null: "convert_to_int U PNone = Inr v \<longleftrightarrow> v = PNone"
  by (auto simp: convert_to_int_def)

lemma yielded_line:
  assumes "snd (parse_line U raw st (PyStr line)) = Inr (Some r)"
  shows "\<not> is_blank (PyStr line)" "\<not> consumed (PyStr line)"
        "parse_line U raw st (PyStr line) = (st, data_result U raw st line)"
proof -
  have n: "\<not> (is_blank (PyStr line) \<or> consumed (PyStr line))"
    using assms parse_line_None_iff[of U raw st "PyStr line"] by auto
  then show "\<not> is_blank (PyStr line)" "\<not> consumed (PyStr line)" by auto
  show "parse_line U raw st (PyStr line) = (st, data_result U raw st line)"
    using n parse_line_data by auto
qed

lemma procs_line_record:
  assumes "flag (procs st)" "\<not> flag (disk st)"
    and "snd (parse_line U raw st (PyStr line)) = Inr (Some r)"
  shows "min_tokens st \<le> length (split None (strip line))"
    and "if raw then r = procs_record st (split (Some 17) (strip line))
         else process U (procs_record st (split (Some 17) (strip line))) = Inr r"
proof -
  have d: "data_result U raw st line = Inr (Some r)"
    using yielded_line(3)[OF assms(3)] assms(3) by simp
  then show "min_tokens st \<le> length (split None (strip line))"
    using procs_data_result[OF assms(1,2), of U raw line] by (auto split: if_splits)
  then show "if raw then r = procs_record st (split (Some 17) (strip line))
         else process U (procs_record st (split (Some 17) (strip line))) = Inr r"
    using d procs_data_result[OF assms(1,2), of U raw line]
    by (auto simp: map_sum_def split: if_splits sum.splits)
qed

lemma emitted_value_non_null: "emitted_value U raw t \<noteq> PNone \<longleftrightarrow> raw \<or> to_int U t \<noteq> None"
  by (auto simp: emitted_value_def split: option.splits)

lemma emitted_field:
  assumes "if raw then r = d else process U d = Inr r"
    and "map_of d k = Some v" "k \<in> set int_list" "k \<noteq> ''epoch''" "k \<noteq> ''epoch_utc''"
  shows "(v = PNone \<longrightarrow> map_of r k = Some PNone) \<and>
         (\<forall>t. v = PStr t \<longrightarrow> map_of r k = Some (emitted_value U raw t))"
proof (cases raw)
  case True
  then show ?thesis using assms by (simp add: emitted_value_def)
next
  case False
  then have "process U d = Inr r" using assms(1) by simp
  from process_map_of[OF this assms(2) assms(4,5)] assms(3)
  obtain v' where v': "map_of r k = Some v'" "convert_to_int U v = Inr v'" by auto
  show ?thesis using v' False convert_text[of U _ v'] convert_null[of U v'] by auto
qed

lemma mem_keys_int_list:
  "''buffer_mem'' \<in> set int_list" "''cache_mem'' \<in> set int_list"
  "''inactive_mem'' \<in> set int_list" "''active_mem'' \<in> set int_list"
  by (simp_all add: int_list_def)

lemma procs_record_mem:
  "map_of (procs_record st toks) ''buffer_mem'' =
     Some (if flag (buff_cache st) then PStr (toks ! 4) else PNone)"
  "map_of (procs_record st toks) ''cache_mem'' =
     Some (if flag (buff_cache st) then PStr (toks ! 5) else PNone)"
  "map_of (procs_record st toks) ''inactive_mem'' =
     Some (if \<not> flag (buff_cache st) then PStr (toks ! 4) else PNone)"
  "map_of (procs_record st toks) ''active_mem'' =
     Some (if \<not> flag (buff_cache st) then PStr (toks ! 5) else PNone)"
  by (simp_all add: procs_record_def)

lemma variant_fields:
  assumes "flag (procs st)" "\<not> flag (disk st)"
    and "snd (parse_line U raw st (PyStr line)) = Inr (Some r)"
  shows "if flag (buff_cache st)
         then map_of r ''buffer_mem'' = Some (emitted_value U raw (split (Some 17) (strip line) ! 4)) \<and>
              map_of r ''cache_mem'' = Some (emitted_value U raw (split (Some 17) (strip line) ! 5)) \<and>
              map_of r ''inactive_mem'' = Some PNone \<and> map_of r ''active_mem'' = Some PNone
         else map_of r ''inactive_mem'' = Some (emitted_value U raw (split (Some 17) (strip line) ! 4)) \<and>
              map_of r ''active_mem'' = Some (emitted_value U raw (split (Some 17) (strip line) ! 5)) \<and>
              map_of r ''buffer_mem'' = Some PNone \<and> map_of r ''cache_mem'' = Some PNone"
proof -
  let ?toks = "split (Some 17) (strip line)"
  note rec = procs_line_record(2)[OF assms]
  note f = emitted_field[OF rec]
  show ?thesis
  proof (cases "flag (buff_cache st)")
    case True
    show ?thesis
      using f[OF procs_record_mem(1) mem_keys_int_list(1)] f[OF procs_record_mem(2) mem_keys_int_list(2)]
            f[OF procs_record_mem(3) mem_keys_int_list(3)] f[OF procs_record_mem(4) mem_keys_int_list(4)]
            True
      by simp
  next
    case False
    show ?thesis
      using f[OF procs_record_mem(1) mem_keys_int_list(1)] f[OF procs_record_mem(2) mem_keys_int_list(2)]
            f[OF procs_record_mem(3) mem_keys_int_list(3)] f[OF procs_record_mem(4) mem_keys_int_list(4)]
            False
      by simp
  qed
qed

lemma yielded_record_origin:
  assumes step: "\<And>s l. P s \<Longrightarrow> P (fst (parse_line U raw s l))"
    and "P st" and "Success r \<in> set (outputs (parse_loop U raw ign st ls))"
  shows "\<exists>s l. P s \<and> snd (parse_line U raw s l) = Inr (Some r)"
  using assms(2,3)
proof (induction ls arbitrary: st)
  case Nil
  then show ?case by simp
next
  case (Cons l ls)
  have P': "P (fst (parse_line U raw st l))" using Cons.prems(1) by (rule step)
  show ?case
  proof (cases "snd (parse_line U raw st l) = Inr (Some r)")
    case True
    then show ?thesis using Cons.prems(1) by blast
  next
    case False
    then have "Success r \<in> set (outputs (parse_loop U raw ign (fst (parse_line U raw st l)) ls))"
      using Cons.prems(2)
      by (cases ign) (auto simp: parse_loop_Cons split: sum.splits option.splits)
    then show ?thesis using Cons.IH[OF P'] by blast
  qed
qed

lemma pair_only_exclusive: "\<not> (buffer_pair_only r \<and> inactive_pair_only r)"
  by (auto simp: buffer_pair_only_def inactive_pair_only_def non_null_def is_null_def)

lemma variant_pairs:
  assumes "flag (procs st)" "\<not> flag (disk st)"
    and "snd (parse_line U True st (PyStr line)) = Inr (Some r)"
  shows "if flag (buff_cache st) then buffer_pair_only r else inactive_pair_only r"
  using variant_fields[OF assms]
  by (auto simp: buffer_pair_only_def inactive_pair_only_def non_null_def is_null_def
                 emitted_value_def)

lemma variant_null_pair:
  assumes "flag (procs st)" "\<not> flag (disk st)"
    and "snd (parse_line U raw st (PyStr line)) = Inr (Some r)"
  shows "if flag (buff_cache st)
         then is_null r ''inactive_mem'' \<and> is_null r ''active_mem''
         else is_null r ''buffer_mem'' \<and> is_null r ''cache_mem''"
  using variant_fields[OF assms] by (auto simp: is_null_def)

lemma family_record_origin:
  assumes "flag (procs st)" "\<not> flag (disk st)"
    and "Success r \<in> set (outputs (parse_loop U raw ign st ls))"
  shows "\<exists>s line. flag (procs s) \<and> \<not> flag (disk s) \<and>
           snd (parse_line U raw s (PyStr line)) = Inr (Some r)"
proof -
  let ?P = "\<lambda>s::pstate. flag (procs s) \<and> \<not> flag (disk s)"
  have "\<exists>s l. ?P s \<and> snd (parse_line U raw s l) = Inr (Some r)"
  proof (rule yielded_record_origin[where P = ?P and st = st and ign = ign and ls = ls])
    fix s l assume "?P s"
    then show "?P (fst (parse_line U raw s l))"
      using parse_line_family_fixed[of s U raw l] by auto
  qed (use assms in auto)
  then obtain s l where s: "flag (procs s)" "\<not> flag (disk s)"
    and l: "snd (parse_line U raw s l) = Inr (Some r)" by blast
  from l obtain line where "l = PyStr line" by (cases l) (auto simp: parse_line_other)
  with s l show ?thesis by blast
qed

lemma stream_variant_pairs:
  assumes "flag (procs st)" "\<not> flag (disk st)"
    and "Success r \<in> set (outputs (parse_loop U True ign st ls))"
  shows "buffer_pair_only r \<or> inactive_pair_only r"
proof -
  from family_record_origin[OF assms] obtain s line where s: "flag (procs s)" "\<not> flag (disk s)"
    and l: "snd (parse_line U True s (PyStr line)) = Inr (Some r)" by blast
  with variant_pairs[OF s l] show ?thesis by (auto split: if_splits)
qed

lemma stream_null_pair:
  assumes "flag (procs st)" "\<not> flag (disk st)"
    and "Success r \<in> set (outputs (parse_loop U raw ign st ls))"
  shows "(is_null r ''inactive_mem'' \<and> is_null r ''active_mem'') \<or>
         (is_null r ''buffer_mem'' \<and> is_null r ''cache_mem'')"
proof -
  from family_record_origin[OF assms] obtain s line where s: "flag (procs s)" "\<not> flag (disk s)"
    and l: "snd (parse_line U raw s (PyStr line)) = Inr (Some r)" by blast
  with variant_null_pair[OF s l] show ?thesis by (auto split: if_splits)
qed

lemma convert_fields_succeeds:
  assumes "\<forall>(k, v) \<in> set d. k \<in> set int_list \<longrightarrow> (\<forall>s. v = PStr s \<longrightarrow> convertible U s)"
  shows "\<exists>d'. convert_fields U d = Inr d'"
  using assms
proof (induction d)
  case Nil
  then show ?case by simp
next
  case (Cons a d)
  obtain k v where a: "a = (k, v)" by (cases a)
  from Cons obtain d' where d': "convert_fields U d = Inr d'" by auto
  have "\<exists>v'. (if k \<in> set int_list then convert_to_int U v else Inr v) = Inr v'"
    using Cons.prems a
    by (cases v) (auto simp: convert_to_int_def convertible_def split: option.splits)
  then show ?case using a d' by auto
qed

lemma not_int_keys:
  "''timestamp'' \<notin> set int_list" "''timezone'' \<notin> set int_list" "''disk'' \<notin> set int_list"
  by (simp_all add: int_list_def)

lemma process_succeeds:
  assumes "\<forall>(k, v) \<in> set d. k \<in> set int_list \<longrightarrow> (\<forall>s. v = PStr s \<longrightarrow> convertible U s)"
    and "map_of d ''timestamp'' = Some t" "map_of d ''timezone'' = Some z"
    and "truthy t \<longrightarrow> (\<exists>res. timestamp U (str t @ '' '' @ str z) = Inr res)"
  shows "\<exists>r. process U d = Inr r"
proof -
  from convert_fields_succeeds[OF assms(1)] obtain d' where d': "convert_fields U d = Inr d'"
    by blast
  have t: "map_of d' ''timestamp'' = Some t"
    using convert_fields_map_of[OF d' assms(2)] not_int_keys by simp
  have z: "map_of d' ''timezone'' = Some z"
    using convert_fields_map_of[OF d' assms(3)] not_int_keys by simp
  show ?thesis using d' t z assms(4)
    by (auto simp: process_def getitem_def)
qed

lemma family_data_result_short:
  assumes "(flag (procs st) \<and> \<not> flag (disk st)) \<or> (\<not> flag (procs st) \<and> flag (disk st))"
    and "length (split None (strip line)) < min_tokens st"
  shows "data_result U raw st line = Inl IndexError"
  using assms procs_data_result[of st U raw line] disk_data_result[of st U raw line]
  by auto

text \<open>What the loop does with a structurally valid data line of a family.\<close>

lemma family_data_result:
  assumes "(flag (procs st) \<and> \<not> flag (disk st)) \<or> (\<not> flag (procs st) \<and> flag (disk st))"
    and "min_tokens st \<le> length (split None (strip line))"
  shows "data_result U True st line = Inr (Some (family_record st line))"
    and "data_result U False st line = map_sum id Some (process U (family_record st line))"
  using assms procs_data_result[of st U _ line] disk_data_result[of st U _ line]
  by (auto simp: family_record_def)

lemma data_line_raw:
  assumes "(flag (procs st) \<and> \<not> flag (disk st)) \<or> (\<not> flag (procs st) \<and> flag (disk st))"
    and "data_line st line"
  shows "parse_loop U True ign st (PyStr line # rest) =
         yield (Success (family_record st line)) (parse_loop U True ign st rest)"
proof -
  have "parse_line U True st (PyStr line) = (st, Inr (Some (family_record st line)))"
    using assms parse_line_data[of line U True st] family_data_result(1)[OF assms(1), of line U]
    by (simp add: data_line_def)
  then show ?thesis by (rule parse_loop_yield)
qed

lemma data_line_normalized:
  assumes "(flag (procs st) \<and> \<not> flag (disk st)) \<or> (\<not> flag (procs st) \<and> flag (disk st))"
    and "data_line st line"
  shows "parse_loop U False ign st (PyStr line # rest) =
         normalized_step U ign st line (parse_loop U False ign st rest)"
proof -
  have p: "parse_line U False st (PyStr line) =
        (st, map_sum id Some (process U (family_record st line)))"
    using assms parse_line_data[of line U False st] family_data_result(2)[OF assms(1), of line U]
    by (simp add: data_line_def)
  show ?thesis
  proof (cases "process U (family_record st line)")
    case (Inl e)
    then have "parse_line U False st (PyStr line) = (st, Inl e)" using p by simp
    from parse_loop_handled[OF this] show ?thesis by (simp add: normalized_step_def Inl)
  next
    case (Inr r)
    then have "parse_line U False st (PyStr line) = (st, Inr (Some r))" using p by simp
    from parse_loop_yield[OF this] show ?thesis
      by (simp add: normalized_step_def Inr stream_success_def)
  qed
qed


subsection \<open>Normalization\<close>

text \<open>Normalizing a normalized record.\<close>

lemma convert_to_int_idem: "convert_to_int U v = Inr v' \<Longrightarrow> convert_to_int U v' = Inr v'"
  by (auto simp: convert_to_int_def split: pyval.splits option.splits)

lemma convert_fields_idem: "convert_fields U d = Inr d' \<Longrightarrow> convert_fields U d' = Inr d'"
proof (induction d arbitrary: d')
  case Nil
  then show ?case by simp
next
  case (Cons a d)
  obtain k v where a: "a = (k, v)" by (cases a)
  from Cons.prems a obtain v' d0 where
    c: "(if k \<in> set int_list then convert_to_int U v else Inr v) = Inr v'"
       "convert_fields U d = Inr d0" "d' = (k, v') # d0"
    by (auto simp: ebind_def split: sum.splits)
  have "(if k \<in> set int_list then convert_to_int U v' else Inr v') = Inr v'"
    using c(1) by (auto dest: convert_to_int_idem split: if_splits)
  then show ?case using Cons.IH[OF c(2)] c(3) by simp
qed

lemma convert_fields_update:
  assumes "convert_fields U d = Inr d" "k \<notin> set int_list"
  shows "convert_fields U (AList.update k v d) = Inr (AList.update k v d)"
  using assms
proof (induction d)
  case Nil
  then show ?case by simp
next
  case (Cons a d)
  obtain k0 v0 where a: "a = (k0, v0)" by (cases a)
  from Cons.prems(1) a have
    c: "(if k0 \<in> set int_list then convert_to_int U v0 else Inr v0) = Inr v0"
       "convert_fields U d = Inr d"
    by (auto simp: ebind_def split: sum.splits)
  show ?case
  proof (cases "k0 = k")
    case True
    then show ?thesis using c a Cons.prems(2) by simp
  next
    case False
    then show ?thesis using c a Cons.IH[OF c(2) Cons.prems(2)] by simp
  qed
qed

lemma epoch_keys_not_int:
  "''epoch'' \<notin> set int_list" "''epoch_utc'' \<notin> set int_list"
  by (simp_all add: int_list_def)

lemma process_idem:
  assumes "process U d = Inr r"
  shows "process U r = Inr r"
proof -
  from process_Inr[OF assms] obtain d' t where d': "convert_fields U d = Inr d'"
    and t: "map_of d' ''timestamp'' = Some t"
    and r: "if truthy t
     then \<exists>z res. map_of d' ''timezone'' = Some z \<and>
        timestamp U (str t @ '' '' @ str z) = Inr res \<and>
        r = AList.update ''epoch_utc'' (utc res) (AList.update ''epoch'' (naive res) d')
     else r = d'"
    by blast
  have fx: "convert_fields U d' = Inr d'" using d' by (rule convert_fields_idem)
  show ?thesis
  proof (cases "truthy t")
    case False
    then have "r = d'" using r by simp
    then show ?thesis using fx t False by (simp add: process_def getitem_def)
  next
    case True
    then obtain z res where z: "map_of d' ''timezone'' = Some z"
      and res: "timestamp U (str t @ '' '' @ str z) = Inr res"
      and req: "r = AList.update ''epoch_utc'' (utc res) (AList.update ''epoch'' (naive res) d')"
      using r by auto
    have c: "convert_fields U r = Inr r"
      unfolding req by (intro convert_fields_update fx epoch_keys_not_int)
    have rt: "map_of r ''timestamp'' = Some t" "map_of r ''timezone'' = Some z"
      using t z by (simp_all add: req update_conv')
    have e: "map_of r ''epoch'' = Some (naive res)" "map_of r ''epoch_utc'' = Some (utc res)"
      by (simp_all add: req update_conv')
    have "AList.update ''epoch_utc'' (utc res) (AList.update ''epoch'' (naive res) r) = r"
      using e by (simp add: update_triv)
    then show ?thesis using c rt True res by (simp add: process_def getitem_def)
  qed
qed

subsection \<open>Tokens, timezone codes and the epoch fields\<close>

lemma split_tokens_nonempty: "t \<in> set (split n s) \<Longrightarrow> t \<noteq> []"
proof (induction n s rule: split.induct)
  case (1 n s)
  define r where "r = dropWhile isspace s"
  show ?case
  proof (cases "r = []")
    case True
    then show ?thesis using "1.prems" by (simp add: split.simps[of n s] r_def)
  next
    case ne: False
    then have hd: "\<not> isspace (hd r)" unfolding r_def by (rule hd_dropWhile)
    then have tw: "takeWhile (\<lambda>c. \<not> isspace c) r \<noteq> []"
      using ne by (cases r) auto
    show ?thesis
    proof (cases "n = Some 0")
      case True
      then have "split n s = [r]" using ne
        by (simp add: split.simps[of "Some 0" s] r_def[symmetric] Let_def)
      then show ?thesis using "1.prems" ne by simp
    next
      case False
      then have "t = takeWhile (\<lambda>c. \<not> isspace c) r \<or>
                 t \<in> set (split (map_option (\<lambda>k. k - 1) n) (dropWhile (\<lambda>c. \<not> isspace c) r))"
        using "1.prems" ne by (simp add: split.simps[of n s] r_def[symmetric] Let_def)
      then show ?thesis using tw "1.IH"[OF r_def ne False] by auto
    qed
  qed
qed

lemma set_tz_wf:
  assumes "strip line \<noteq> []" "wf_state st"
  shows "wf_state (fst (set_tz st line))" "wf_state (fst (set_tz (st\<lparr>buff_cache := b\<rparr>) line))"
  using assms by (simp_all add: set_tz_state wf_state_def)

lemma parse_line_wf: "wf_state st \<Longrightarrow> wf_state (fst (parse_line U raw st l))"
proof (cases l)
  case PyOther
  assume "wf_state st"
  then show ?thesis by (simp add: PyOther parse_line_other)
next
  case (PyBytes b)
  assume "wf_state st"
  then show ?thesis by (simp add: PyBytes parse_line_other)
next
  case (PyStr line)
  assume w: "wf_state st"
  show ?thesis
  proof (cases "strip line = []")
    case True
    then show ?thesis using w by (simp add: PyStr parse_line_def)
  next
    case False
    have m: "wf_state (st\<lparr>procs := Some True, tstamp := x\<rparr>)"
            "wf_state (st\<lparr>disk := Some True, tstamp := x\<rparr>)"
      if "\<not> flag (procs st)" "\<not> flag (disk st)" for x
      using w that by (simp_all add: wf_state_def)
    show ?thesis using False w m set_tz_wf[OF False w]
      by (simp add: PyStr parse_line_def)
  qed
qed

lemma wf_reachable: "wf_state (final_state (parse_loop U raw ign init ls))"
  by (rule final_state_induct[where P = wf_state])
     (simp_all add: parse_line_wf, simp add: wf_state_def init_def)

lemma process_epoch:
  assumes "process U d = Inr r" "map_of d ''timestamp'' = Some t" "map_of d ''timezone'' = Some z"
    and "map_of d ''epoch'' = None" "map_of d ''epoch_utc'' = None"
  shows "if truthy t
         then \<exists>res. timestamp U (str t @ '' '' @ str z) = Inr res \<and>
                map_of r ''epoch'' = Some (naive res) \<and> map_of r ''epoch_utc'' = Some (utc res)
         else map_of r ''epoch'' = None \<and> map_of r ''epoch_utc'' = None"
proof -
  from process_Inr[OF assms(1)] obtain d' t' where d': "convert_fields U d = Inr d'"
    and t': "map_of d' ''timestamp'' = Some t'"
    and r: "if truthy t'
     then \<exists>z res. map_of d' ''timezone'' = Some z \<and>
        timestamp U (str t' @ '' '' @ str z) = Inr res \<and>
        r = AList.update ''epoch_utc'' (utc res) (AList.update ''epoch'' (naive res) d')
     else r = d'"
    by blast
  have tt: "t' = t" using convert_fields_map_of[OF d' assms(2)] t' not_int_keys by simp
  have z: "map_of d' ''timezone'' = Some z"
    using convert_fields_map_of[OF d' assms(3)] not_int_keys by simp
  have e: "map_of d' ''epoch'' = None" "map_of d' ''epoch_utc'' = None"
    using convert_fields_map_of_None[OF d'] assms(4,5) by simp_all
  show ?thesis
  proof (cases "truthy t")
    case False
    then show ?thesis using r tt e by simp
  next
    case True
    then obtain res where res: "timestamp U (str t @ '' '' @ str z) = Inr res"
      and req: "r = AList.update ''epoch_utc'' (utc res) (AList.update ''epoch'' (naive res) d')"
      using r tt z by auto
    show ?thesis using True res by (simp add: req update_conv')
  qed
qed

lemma nth_token_nonempty: "i < length (split n s) \<Longrightarrow> split n s ! i \<noteq> []"
  using split_tokens_nonempty[of "split n s ! i" n s] by simp

lemma record_keys:
  "map_of (procs_record st toks) ''timestamp'' =
     Some (if flag (tstamp st) then PStr (toks ! 17) else PNone)"
  "map_of (procs_record st toks) ''timezone'' = Some (or_none (tz st))"
  "map_of (procs_record st toks) ''epoch'' = None"
  "map_of (procs_record st toks) ''epoch_utc'' = None"
  "map_of (disk_record st toks) ''timestamp'' =
     Some (if flag (tstamp st) then PStr (toks ! 11) else PNone)"
  "map_of (disk_record st toks) ''timezone'' = Some (or_none (tz st))"
  "map_of (disk_record st toks) ''epoch'' = None"
  "map_of (disk_record st toks) ''epoch_utc'' = None"
  by (simp_all add: procs_record_def disk_record_def)

lemma family_record_keys:
  "map_of (family_record st line) ''timestamp'' =
     Some (if flag (tstamp st) then PStr (timestamp_token st line) else PNone)"
  "map_of (family_record st line) ''timezone'' = Some (or_none (tz st))"
  "map_of (family_record st line) ''epoch'' = None"
  "map_of (family_record st line) ''epoch_utc'' = None"
  by (simp_all add: family_record_def timestamp_token_def record_keys)

lemma timestamp_token_nonempty:
  assumes "flag (procs st) \<or> flag (disk st)" "flag (tstamp st)"
    and "min_tokens st \<le> length (split None (strip line))"
  shows "timestamp_token st line \<noteq> []"
proof (cases "flag (disk st)")
  case True
  then have "11 < length (split (Some 11) (strip line))"
    using assms by (auto simp: min_tokens_def split_length_maxsplit split: if_splits)
  then show ?thesis using True nth_token_nonempty[of 11 "Some 11" "strip line"]
    by (simp add: timestamp_token_def)
next
  case False
  then have "17 < length (split (Some 17) (strip line))"
    using assms by (auto simp: min_tokens_def split_length_maxsplit split: if_splits)
  then show ?thesis using False nth_token_nonempty[of 17 "Some 17" "strip line"]
    by (simp add: timestamp_token_def)
qed

text \<open>The record a yielded line was built from, in either family.\<close>

lemma yielded_record_source:
  assumes "wf_state st"
    and "snd (parse_line U raw st (PyStr line)) = Inr (Some r)"
  shows "flag (procs st) \<or> flag (disk st)" "data_line st line"
    "if raw then r = family_record st line else process U (family_record st line) = Inr r"
proof -
  have d: "data_result U raw st line = Inr (Some r)"
    using yielded_line(3)[OF assms(2)] assms(2) by simp
  have u: "\<not> (\<not> flag (procs st) \<and> \<not> flag (disk st))"
    using d unset_data_result[of st U raw line] by auto
  then show f: "flag (procs st) \<or> flag (disk st)" by blast
  have fam: "(flag (procs st) \<and> \<not> flag (disk st)) \<or> (\<not> flag (procs st) \<and> flag (disk st))"
    using u assms(1) by (auto simp: wf_state_def)
  have m: "min_tokens st \<le> length (split None (strip line))"
    using d family_data_result_short[OF fam, of line U raw] by (cases "min_tokens st \<le> length (split None (strip line))") auto
  then show "data_line st line" using yielded_line(1,2)[OF assms(2)] by (simp add: data_line_def)
  show "if raw then r = family_record st line else process U (family_record st line) = Inr r"
    using d family_data_result[OF fam m, of U]
    by (cases raw) (auto simp: map_sum_def split: sum.splits)
qed

subsection \<open>When normalization raises\<close>

lemma convert_to_int_ok:
  "(\<exists>v'. convert_to_int U v = Inr v') \<longleftrightarrow> (\<forall>s. v = PStr s \<longrightarrow> convertible U s)"
  by (cases v) (auto simp: convert_to_int_def convertible_def split: option.splits)

lemma convert_fields_ok_iff:
  "(\<exists>d'. convert_fields U d = Inr d') \<longleftrightarrow>
   (\<forall>(k, v) \<in> set d. k \<in> set int_list \<longrightarrow> (\<forall>s. v = PStr s \<longrightarrow> convertible U s))"
proof (induction d)
  case Nil
  show ?case by simp
next
  case (Cons a d)
  obtain k v where a: "a = (k, v)" by (cases a)
  have "(\<exists>d'. convert_fields U (a # d) = Inr d') \<longleftrightarrow>
        (\<exists>v'. (if k \<in> set int_list then convert_to_int U v else Inr v) = Inr v') \<and>
        (\<exists>d'. convert_fields U d = Inr d')"
    by (auto simp: a ebind_def split: sum.splits)
  also have "(\<exists>v'. (if k \<in> set int_list then convert_to_int U v else Inr v) = Inr v') \<longleftrightarrow>
        (k \<in> set int_list \<longrightarrow> (\<forall>s. v = PStr s \<longrightarrow> convertible U s))"
    using convert_to_int_ok[of U v] by simp
  finally show ?case using Cons.IH by (simp add: a)
qed

lemma process_ok_iff:
  assumes "map_of d ''timestamp'' = Some t" "map_of d ''timezone'' = Some z"
  shows "(\<exists>n. process U d = Inr n) \<longleftrightarrow>
         (\<forall>(k, v) \<in> set d. k \<in> set int_list \<longrightarrow> (\<forall>s. v = PStr s \<longrightarrow> convertible U s)) \<and>
         (truthy t \<longrightarrow> (\<exists>res. timestamp U (str t @ '' '' @ str z) = Inr res))"
proof
  assume "\<exists>n. process U d = Inr n"
  then obtain n where n: "process U d = Inr n" by blast
  from process_Inr[OF n] obtain d' t' where d': "convert_fields U d = Inr d'"
    and t': "map_of d' ''timestamp'' = Some t'"
    and r: "if truthy t'
     then \<exists>z res. map_of d' ''timezone'' = Some z \<and>
        timestamp U (str t' @ '' '' @ str z) = Inr res \<and>
        n = AList.update ''epoch_utc'' (utc res) (AList.update ''epoch'' (naive res) d')
     else n = d'"
    by blast
  have tt: "t' = t" using convert_fields_map_of[OF d' assms(1)] t' not_int_keys by simp
  have z: "map_of d' ''timezone'' = Some z"
    using convert_fields_map_of[OF d' assms(2)] not_int_keys by simp
  have "truthy t \<longrightarrow> (\<exists>res. timestamp U (str t @ '' '' @ str z) = Inr res)"
    using r tt z by auto
  moreover have "\<forall>(k, v) \<in> set d. k \<in> set int_list \<longrightarrow> (\<forall>s. v = PStr s \<longrightarrow> convertible U s)"
    using d' convert_fields_ok_iff[of U d] by blast
  ultimately show "(\<forall>(k, v) \<in> set d. k \<in> set int_list \<longrightarrow> (\<forall>s. v = PStr s \<longrightarrow> convertible U s)) \<and>
         (truthy t \<longrightarrow> (\<exists>res. timestamp U (str t @ '' '' @ str z) = Inr res))"
    by blast
next
  assume a: "(\<forall>(k, v) \<in> set d. k \<in> set int_list \<longrightarrow> (\<forall>s. v = PStr s \<longrightarrow> convertible U s)) \<and>
         (truthy t \<longrightarrow> (\<exists>res. timestamp U (str t @ '' '' @ str z) = Inr res))"
  show "\<exists>n. process U d = Inr n"
    by (rule process_succeeds[OF a[THEN conjunct1] assms a[THEN conjunct2]])
qed

lemma procs_record_numeric:
  "(\<forall>(k, v) \<in> set (procs_record st toks). k \<in> set int_list \<longrightarrow>
      (\<forall>s. v = PStr s \<longrightarrow> convertible U s)) \<longleftrightarrow>
   list_all (convertible U) (map (\<lambda>i. toks ! i) [0..<17])"
proof -
  have u: "[0..<17] = [0, 1, 2, 3, 4, 5, 6, 7, 8, 9, 10, 11, 12, 13, 14, 15, 16::nat]"
    by (simp add: upt_rec)
  show ?thesis unfolding u by (auto simp: procs_record_def int_list_def)
qed

lemma disk_record_numeric:
  "(\<forall>(k, v) \<in> set (disk_record st toks). k \<in> set int_list \<longrightarrow>
      (\<forall>s. v = PStr s \<longrightarrow> convertible U s)) \<longleftrightarrow>
   list_all (convertible U) (map (\<lambda>i. toks ! i) [1..<11])"
proof -
  have u: "[1..<11] = [1, 2, 3, 4, 5, 6, 7, 8, 9, 10::nat]"
    by (simp add: upt_rec)
  show ?thesis unfolding u by (auto simp: disk_record_def int_list_def)
qed

lemma family_record_numeric:
  "(\<forall>(k, v) \<in> set (family_record st line). k \<in> set int_list \<longrightarrow>
      (\<forall>s. v = PStr s \<longrightarrow> convertible U s)) \<longleftrightarrow>
   list_all (convertible U) (numeric_tokens st line)"
  using procs_record_numeric[of st "split (Some 17) (strip line)" U]
        disk_record_numeric[of st "split (Some 11) (strip line)" U]
  by (simp add: family_record_def numeric_tokens_def)

text \<open>Normalization of the record of a data line raises exactly when the line is not normalizable.\<close>

lemma normalizable_iff:
  assumes "flag (procs st) \<or> flag (disk st)" "data_line st line"
  shows "(\<exists>n. process U (family_record st line) = Inr n) \<longleftrightarrow> normalizable U st line"
proof -
  let ?t = "if flag (tstamp st) then PStr (timestamp_token st line) else PNone"
  have m: "min_tokens st \<le> length (split None (strip line))"
    using assms(2) by (simp add: data_line_def)
  have tr: "truthy ?t = flag (tstamp st)"
    using timestamp_token_nonempty[OF assms(1) _ m] by simp
  have "(\<exists>n. process U (family_record st line) = Inr n) \<longleftrightarrow>
        list_all (convertible U) (numeric_tokens st line) \<and>
        (truthy ?t \<longrightarrow> (\<exists>res. timestamp U (str ?t @ '' '' @ str (or_none (tz st))) = Inr res))"
    unfolding process_ok_iff[OF family_record_keys(1,2), of U st line] family_record_numeric
    by (rule refl)
  also have "(truthy ?t \<longrightarrow> (\<exists>res. timestamp U (str ?t @ '' '' @ str (or_none (tz st))) = Inr res))
      \<longleftrightarrow> (if flag (tstamp st) then resolves U st line else True)"
    using tr by (auto simp: resolves_def split: sum.splits)
  finally show ?thesis by (simp add: normalizable_def)
qed

lemma normalizable_step:
  assumes "(flag (procs st) \<and> \<not> flag (disk st)) \<or> (\<not> flag (procs st) \<and> flag (disk st))"
    and "data_line st line"
  shows "normalizable U st line \<Longrightarrow>
         \<exists>n. process U (family_record st line) = Inr n \<and>
             parse_loop U False ign st (PyStr line # rest) =
               yield (Success n) (parse_loop U False ign st rest)"
    and "\<not> normalizable U st line \<Longrightarrow>
         \<exists>e. process U (family_record st line) = Inl e \<and>
             parse_loop U False ign st (PyStr line # rest) =
               handled e ign (PyStr line) st (parse_loop U False ign st rest)"
proof -
  have f: "flag (procs st) \<or> flag (disk st)" using assms(1) by blast
  note iff = normalizable_iff[OF f assms(2), of U]
  note step = data_line_normalized[OF assms, of U ign rest]
  show "\<exists>n. process U (family_record st line) = Inr n \<and>
             parse_loop U False ign st (PyStr line # rest) =
               yield (Success n) (parse_loop U False ign st rest)"
    if "normalizable U st line"
  proof -
    from that iff obtain n where n: "process U (family_record st line) = Inr n" by blast
    then show ?thesis using step by (simp add: normalized_step_def stream_success_def)
  qed
  show "\<exists>e. process U (family_record st line) = Inl e \<and>
             parse_loop U False ign st (PyStr line # rest) =
               handled e ign (PyStr line) st (parse_loop U False ign st rest)"
    if "\<not> normalizable U st line"
  proof -
    from that iff obtain e where e: "process U (family_record st line) = Inl e"
      by (cases "process U (family_record st line)") auto
    then show ?thesis using step by (simp add: normalized_step_def)
  qed
qed

section \<open>The claims\<close>

subsection \<open>Claim C1: a fault on one line and the lines after it\<close>

text \<open>
  Claim C1, as amended. The claim says that under the default configuration each
  faulting line yields an inline Error value and the stream continues. The default of
  the signature is \<open>ignore_exceptions=False\<close>, and with it the first faulting line
  raises out of the generator: no Error value, and the lines after it are not read.
  What holds: with \<open>ignore_exceptions=True\<close> the run always ends with the input
  exhausted, and a line that raises \<open>e\<close> after the lines \<open>pre\<close> puts
  \<open>Error e l\<close> on the stream, after the values of \<open>pre\<close> and before the values of
  the lines \<open>post\<close>, which are processed from the state the faulting line was read
  in. With \<open>ignore_exceptions=False\<close>, a fault after a prefix without faults ends
  the run with that exception, after the values of the prefix.
\<close>

theorem inline_faults_continue:
  "ending_of (parse_loop U raw True st ls) = Exhausted \<and>
   (snd (parse_line U raw (final_state (parse_loop U raw True st pre)) l) = Inl e \<longrightarrow>
      outputs (parse_loop U raw True st (pre @ l # post)) =
        outputs (parse_loop U raw True st pre) @ Error e l #
        outputs (parse_loop U raw True (final_state (parse_loop U raw True st pre)) post)) \<and>
   (ending_of (parse_loop U raw False st pre) = Exhausted \<and>
    snd (parse_line U raw (final_state (parse_loop U raw False st pre)) l) = Inl e \<longrightarrow>
      parse_loop U raw False st (pre @ l # post) =
        (final_state (parse_loop U raw False st pre),
         outputs (parse_loop U raw False st pre), Raised e))"
  using inline_ending inline_fault_outputs propagate_fault by blast

theorem inline_faults_continue_witness:
  "ending_of (parse_loop demo_utils False True init
      [PyStr ''procs'', PyStr ''1 2 3 4 5'', PyStr ''1 2 3 4 5 6 7 8 9 10 11 12 13 14 15 16 17''])
     = Exhausted \<and>
   outputs (parse_loop demo_utils False True init
      [PyStr ''procs'', PyStr ''1 2 3 4 5'', PyStr ''1 2 3 4 5 6 7 8 9 10 11 12 13 14 15 16 17''])
     = [Error IndexError (PyStr ''1 2 3 4 5''),
        Success [(''runnable_procs'', PInt 1), (''uninterruptible_sleeping_procs'', PInt 2),
          (''virtual_mem_used'', PInt 3), (''free_mem'', PInt 4), (''buffer_mem'', PNone),
          (''cache_mem'', PNone), (''inactive_mem'', PInt 5), (''active_mem'', PInt 6),
          (''swap_in'', PInt 7), (''swap_out'', PInt 8), (''blocks_in'', PInt 9),
          (''blocks_out'', PInt 10), (''interrupts'', PInt 11), (''context_switches'', PInt 12),
          (''user_time'', PInt 13), (''system_time'', PInt 14), (''idle_time'', PInt 15),
          (''io_wait_time'', PInt 16), (''stolen_time'', PInt 17), (''timestamp'', PNone),
          (''timezone'', PNone)]] \<and>
   parse_loop demo_utils False False init
      [PyStr ''procs'', PyStr ''1 2 3 4 5'', PyStr ''1 2 3 4 5 6 7 8 9 10 11 12 13 14 15 16 17'']
     = (init\<lparr>procs := Some True, tstamp := Some False\<rparr>, [], Raised IndexError)"
proof -
  let ?pre = "[PyStr ''procs'']"
  let ?l = "PyStr ''1 2 3 4 5''"
  let ?post = "[PyStr ''1 2 3 4 5 6 7 8 9 10 11 12 13 14 15 16 17'']"
  have h1: "snd (parse_line demo_utils False (final_state (parse_loop demo_utils False True init ?pre)) ?l)
            = Inl IndexError"
    by code_simp
  have h2: "ending_of (parse_loop demo_utils False False init ?pre) = Exhausted"
    by code_simp
  have h3: "snd (parse_line demo_utils False (final_state (parse_loop demo_utils False False init ?pre)) ?l)
            = Inl IndexError"
    by code_simp
  have pre: "outputs (parse_loop demo_utils False True init ?pre) = []"
            "final_state (parse_loop demo_utils False True init ?pre) = init\<lparr>procs := Some True, tstamp := Some False\<rparr>"
            "final_state (parse_loop demo_utils False False init ?pre) = init\<lparr>procs := Some True, tstamp := Some False\<rparr>"
            "outputs (parse_loop demo_utils False False init ?pre) = []"
    by code_simp+
  have post: "outputs (parse_loop demo_utils False True (init\<lparr>procs := Some True, tstamp := Some False\<rparr>) ?post)
     = [Success [(''runnable_procs'', PInt 1), (''uninterruptible_sleeping_procs'', PInt 2),
          (''virtual_mem_used'', PInt 3), (''free_mem'', PInt 4), (''buffer_mem'', PNone),
          (''cache_mem'', PNone), (''inactive_mem'', PInt 5), (''active_mem'', PInt 6),
          (''swap_in'', PInt 7), (''swap_out'', PInt 8), (''blocks_in'', PInt 9),
          (''blocks_out'', PInt 10), (''interrupts'', PInt 11), (''context_switches'', PInt 12),
          (''user_time'', PInt 13), (''system_time'', PInt 14), (''idle_time'', PInt 15),
          (''io_wait_time'', PInt 16), (''stolen_time'', PInt 17), (''timestamp'', PNone),
          (''timezone'', PNone)]]"
    by code_simp
  from inline_faults_continue[of demo_utils False init _ ?pre ?l IndexError ?post] h1 h2 h3
  show ?thesis by (simp add: pre post)
qed

text \<open>
  Claim C1 as stated fails with the defaults of the signature: the second line has five
  tokens and raises \<open>IndexError\<close>; nothing is yielded for it, and the valid third
  line is never processed.
\<close>

theorem default_fault_ends_stream_counterexample:
  "parse_default demo_utils
     (Iterable [PyStr ''procs'', PyStr ''1 2 3 4 5'',
                PyStr ''1 2 3 4 5 6 7 8 9 10 11 12 13 14 15 16 17''])
   = ([], Raised IndexError)"
  by code_simp

subsection \<open>Claim C2: one value per line, in order\<close>

text \<open>
  Claim C2, as amended. The claim holds when errors are emitted inline
  (\<open>ignore_exceptions=True\<close>); with the default \<open>ignore_exceptions=False\<close> a
  faulting line yields nothing and ends the stream. With \<open>ignore_exceptions=True\<close>,
  for every input and every starting state: the number of values yielded is the number
  of non-blank elements minus the number of consumed marker and header lines; the
  values are the per-line values in input order, each line read in the state the lines
  before it left; and a line yields no value if it is blank or consumed, and exactly one
  value (a Success or an Error) otherwise.
\<close>

theorem inline_one_value_per_line:
  "length (outputs (parse_loop U raw True st ls)) =
     length (filter (\<lambda>l. \<not> is_blank l) ls) - length (filter consumed ls) \<and>
   outputs (parse_loop U raw True st ls) =
     concat (map (\<lambda>(s, l). outputs (parse_loop U raw True s [l])) (trace U raw st ls)) \<and>
   (\<forall>s l. length (outputs (parse_loop U raw True s [l])) =
            (if is_blank l \<or> consumed l then 0 else 1))"
  using inline_outputs_length_filter[of U raw st ls] filter_split_count[of ls]
        inline_outputs_trace[of U raw st ls] inline_single_length[of U raw]
  by simp

text \<open>
  The theorem at a disk stream of six elements: one blank, two consumed (marker and
  header), and three values for the remaining three (a short line, an element that is
  not text, a valid line).
\<close>

theorem inline_one_value_per_line_witness:
  "length (outputs (parse_loop demo_utils True True init
     [PyStr ''disk- -reads-'', PyStr '' '', PyStr ''total merged sectors'', PyStr ''sda 1 2'',
      PyOther, PyStr ''sda 1 2 3 4 5 6 7 8 9 10''])) = 3 \<and>
   length (filter (\<lambda>l. \<not> is_blank l)
     [PyStr ''disk- -reads-'', PyStr '' '', PyStr ''total merged sectors'', PyStr ''sda 1 2'',
      PyOther, PyStr ''sda 1 2 3 4 5 6 7 8 9 10'']) = 5 \<and>
   length (filter consumed
     [PyStr ''disk- -reads-'', PyStr '' '', PyStr ''total merged sectors'', PyStr ''sda 1 2'',
      PyOther, PyStr ''sda 1 2 3 4 5 6 7 8 9 10'']) = 2"
proof -
  let ?ls = "[PyStr ''disk- -reads-'', PyStr '' '', PyStr ''total merged sectors'', PyStr ''sda 1 2'',
      PyOther, PyStr ''sda 1 2 3 4 5 6 7 8 9 10'']"
  have a: "length (filter (\<lambda>l. \<not> is_blank l) ?ls) = 5" by code_simp
  have b: "length (filter consumed ?ls) = 2" by code_simp
  have "length (outputs (parse_loop demo_utils True True init ?ls)) =
        length (filter (\<lambda>l. \<not> is_blank l) ?ls) - length (filter consumed ?ls)"
    using inline_one_value_per_line[of demo_utils True init ?ls] by (rule conjunct1)
  then have c: "length (outputs (parse_loop demo_utils True True init ?ls)) = 5 - 2"
    by (simp only: a b)
  show ?thesis
  proof (intro conjI)
    show "length (outputs (parse_loop demo_utils True True init ?ls)) = 3"
      by (simp only: c)
  qed (rule a, rule b)
qed

text \<open>
  Claim C2 as stated fails with the defaults of the signature: four non-blank lines, two
  of them consumed, and no value is yielded, because the third line raises
  \<open>IndexError\<close> out of the generator.
\<close>

theorem default_output_count_counterexample:
  "length (fst (parse_default demo_utils
     (Iterable [PyStr ''disk- -reads-'', PyStr ''total merged sectors'', PyStr ''sda 1 2'',
                PyStr ''sda 1 2 3 4 5 6 7 8 9 10'']))) = 0 \<and>
   length (filter (\<lambda>l. \<not> is_blank l)
     [PyStr ''disk- -reads-'', PyStr ''total merged sectors'', PyStr ''sda 1 2'',
      PyStr ''sda 1 2 3 4 5 6 7 8 9 10'']) -
   length (filter consumed
     [PyStr ''disk- -reads-'', PyStr ''total merged sectors'', PyStr ''sda 1 2'',
      PyStr ''sda 1 2 3 4 5 6 7 8 9 10'']) = 2"
  by code_simp

subsection \<open>Claim C3: the variant and the memory columns\<close>

text \<open>
  Claim C3, as amended. In the process family a data line with enough tokens yields a
  record: in raw mode the record of its tokens, and after normalization the normalized
  record, unless normalization raises. In every record the stream yields, at most one of
  the pairs \<open>buffer_mem\<close>/\<open>cache_mem\<close> and \<open>inactive_mem\<close>/\<open>active_mem\<close> is filled, never
  both; in raw mode exactly one is. When the variant is BUFFER\_CACHE
  (\<open>buff_cache = True\<close>), \<open>buffer_mem\<close> and \<open>cache_mem\<close> hold tokens 4 and 5 of the line
  and the other pair is null; when the variant is INACTIVE\_ACTIVE (\<open>buff_cache = False\<close>)
  or not yet set, the assignment is reversed. A token is held as its text in raw mode
  and, after normalization, as the integer it denotes, or as null when it denotes none:
  "never neither" holds for raw records only.
\<close>

theorem variant_decides_memory_pair:
  assumes "flag (procs st)" "\<not> flag (disk st)"
  shows
  "(data_line st line \<longrightarrow>
      parse_loop U True ign st (PyStr line # rest) =
        yield (Success (procs_record st (split (Some 17) (strip line))))
              (parse_loop U True ign st rest) \<and>
      parse_loop U False ign st (PyStr line # rest) =
        (case process U (procs_record st (split (Some 17) (strip line))) of
           Inr n \<Rightarrow> yield (Success n) (parse_loop U False ign st rest)
         | Inl e \<Rightarrow>
             if ign then yield (Error e (PyStr line)) (parse_loop U False ign st rest)
             else (st, [], Raised e))) \<and>
   (Success r \<in> set (outputs (parse_loop U True ign st ls)) \<longrightarrow>
      (buffer_pair_only r \<or> inactive_pair_only r) \<and>
      \<not> (buffer_pair_only r \<and> inactive_pair_only r)) \<and>
   (Success r \<in> set (outputs (parse_loop U raw ign st ls)) \<longrightarrow>
      (is_null r ''inactive_mem'' \<and> is_null r ''active_mem'') \<or>
      (is_null r ''buffer_mem'' \<and> is_null r ''cache_mem'')) \<and>
   (snd (parse_line U raw st (PyStr line)) = Inr (Some r') \<longrightarrow>
      (if flag (buff_cache st)
       then map_of r' ''buffer_mem'' = Some (emitted_value U raw (split (Some 17) (strip line) ! 4)) \<and>
            map_of r' ''cache_mem'' = Some (emitted_value U raw (split (Some 17) (strip line) ! 5)) \<and>
            map_of r' ''inactive_mem'' = Some PNone \<and> map_of r' ''active_mem'' = Some PNone
       else map_of r' ''inactive_mem'' = Some (emitted_value U raw (split (Some 17) (strip line) ! 4)) \<and>
            map_of r' ''active_mem'' = Some (emitted_value U raw (split (Some 17) (strip line) ! 5)) \<and>
            map_of r' ''buffer_mem'' = Some PNone \<and> map_of r' ''cache_mem'' = Some PNone)) \<and>
   (emitted_value U raw t \<noteq> PNone \<longleftrightarrow> raw \<or> to_int U t \<noteq> None)"
proof -
  have fam: "(flag (procs st) \<and> \<not> flag (disk st)) \<or> (\<not> flag (procs st) \<and> flag (disk st))"
    using assms by simp
  have fr: "family_record st line = procs_record st (split (Some 17) (strip line))"
    using assms by (simp add: family_record_def)
  have c1: "data_line st line \<longrightarrow>
      parse_loop U True ign st (PyStr line # rest) =
        yield (Success (procs_record st (split (Some 17) (strip line))))
              (parse_loop U True ign st rest) \<and>
      parse_loop U False ign st (PyStr line # rest) =
        (case process U (procs_record st (split (Some 17) (strip line))) of
           Inr n \<Rightarrow> yield (Success n) (parse_loop U False ign st rest)
         | Inl e \<Rightarrow>
             if ign then yield (Error e (PyStr line)) (parse_loop U False ign st rest)
             else (st, [], Raised e))"
  proof
    assume d: "data_line st line"
    have a: "parse_loop U True ign st (PyStr line # rest) =
        yield (Success (procs_record st (split (Some 17) (strip line))))
              (parse_loop U True ign st rest)"
      using data_line_raw[OF fam d, of U ign rest] by (simp only: fr)
    have b: "parse_loop U False ign st (PyStr line # rest) =
        (case process U (procs_record st (split (Some 17) (strip line))) of
           Inr n \<Rightarrow> yield (Success n) (parse_loop U False ign st rest)
         | Inl e \<Rightarrow>
             if ign then yield (Error e (PyStr line)) (parse_loop U False ign st rest)
             else (st, [], Raised e))"
      unfolding data_line_normalized[OF fam d, of U ign rest] normalized_step_def fr
        stream_success_def
      by (cases "process U (procs_record st (split (Some 17) (strip line)))"; cases ign)
         (simp_all add: handled_simps)
    from a b show "parse_loop U True ign st (PyStr line # rest) =
        yield (Success (procs_record st (split (Some 17) (strip line))))
              (parse_loop U True ign st rest) \<and>
      parse_loop U False ign st (PyStr line # rest) =
        (case process U (procs_record st (split (Some 17) (strip line))) of
           Inr n \<Rightarrow> yield (Success n) (parse_loop U False ign st rest)
         | Inl e \<Rightarrow>
             if ign then yield (Error e (PyStr line)) (parse_loop U False ign st rest)
             else (st, [], Raised e))"
      by (rule conjI)
  qed
  have c2: "Success r \<in> set (outputs (parse_loop U True ign st ls)) \<longrightarrow>
      (buffer_pair_only r \<or> inactive_pair_only r) \<and>
      \<not> (buffer_pair_only r \<and> inactive_pair_only r)"
    using stream_variant_pairs[OF assms, of r U ign ls] pair_only_exclusive[of r] by blast
  have c3: "Success r \<in> set (outputs (parse_loop U raw ign st ls)) \<longrightarrow>
      (is_null r ''inactive_mem'' \<and> is_null r ''active_mem'') \<or>
      (is_null r ''buffer_mem'' \<and> is_null r ''cache_mem'')"
    using stream_null_pair[OF assms, of r U raw ign ls] by blast
  have c4: "snd (parse_line U raw st (PyStr line)) = Inr (Some r') \<longrightarrow>
      (if flag (buff_cache st)
       then map_of r' ''buffer_mem'' = Some (emitted_value U raw (split (Some 17) (strip line) ! 4)) \<and>
            map_of r' ''cache_mem'' = Some (emitted_value U raw (split (Some 17) (strip line) ! 5)) \<and>
            map_of r' ''inactive_mem'' = Some PNone \<and> map_of r' ''active_mem'' = Some PNone
       else map_of r' ''inactive_mem'' = Some (emitted_value U raw (split (Some 17) (strip line) ! 4)) \<and>
            map_of r' ''active_mem'' = Some (emitted_value U raw (split (Some 17) (strip line) ! 5)) \<and>
            map_of r' ''buffer_mem'' = Some PNone \<and> map_of r' ''cache_mem'' = Some PNone)"
    using variant_fields[OF assms, of U raw line r'] by blast
  have c5: "emitted_value U raw t \<noteq> PNone \<longleftrightarrow> raw \<or> to_int U t \<noteq> None"
    by (rule emitted_value_non_null)
  from c1 c2 c3 c4 c5 show ?thesis by (intro conjI)
qed

text \<open>
  The theorem at a process-family state with the buffer/cache variant and a line of 17
  tokens: the raw run and the normalized run of that line, and the pairs of the two
  records.
\<close>

theorem variant_decides_memory_pair_witness:
  "outputs (parse_loop demo_utils True True
      (init\<lparr>procs := Some True, tstamp := Some False, buff_cache := Some True\<rparr>)
      [PyStr ''2 0 0 27 21 74 0 0 1 3 29 57 0 0 99 0 0'']) =
     [Success
       [(''runnable_procs'', PStr ''2''), (''uninterruptible_sleeping_procs'', PStr ''0''),
        (''virtual_mem_used'', PStr ''0''), (''free_mem'', PStr ''27''),
        (''buffer_mem'', PStr ''21''), (''cache_mem'', PStr ''74''),
        (''inactive_mem'', PNone), (''active_mem'', PNone),
        (''swap_in'', PStr ''0''), (''swap_out'', PStr ''0''), (''blocks_in'', PStr ''1''),
        (''blocks_out'', PStr ''3''), (''interrupts'', PStr ''29''),
        (''context_switches'', PStr ''57''), (''user_time'', PStr ''0''),
        (''system_time'', PStr ''0''), (''idle_time'', PStr ''99''),
        (''io_wait_time'', PStr ''0''), (''stolen_time'', PStr ''0''),
        (''timestamp'', PNone), (''timezone'', PNone)]] \<and>
   buffer_pair_only
       [(''runnable_procs'', PStr ''2''), (''uninterruptible_sleeping_procs'', PStr ''0''),
        (''virtual_mem_used'', PStr ''0''), (''free_mem'', PStr ''27''),
        (''buffer_mem'', PStr ''21''), (''cache_mem'', PStr ''74''),
        (''inactive_mem'', PNone), (''active_mem'', PNone),
        (''swap_in'', PStr ''0''), (''swap_out'', PStr ''0''), (''blocks_in'', PStr ''1''),
        (''blocks_out'', PStr ''3''), (''interrupts'', PStr ''29''),
        (''context_switches'', PStr ''57''), (''user_time'', PStr ''0''),
        (''system_time'', PStr ''0''), (''idle_time'', PStr ''99''),
        (''io_wait_time'', PStr ''0''), (''stolen_time'', PStr ''0''),
        (''timestamp'', PNone), (''timezone'', PNone)] \<and>
   outputs (parse_loop demo_utils False True
      (init\<lparr>procs := Some True, tstamp := Some False, buff_cache := Some True\<rparr>)
      [PyStr ''2 0 0 27 21 74 0 0 1 3 29 57 0 0 99 0 0'']) =
     [Success
       [(''runnable_procs'', PInt 2), (''uninterruptible_sleeping_procs'', PInt 0),
        (''virtual_mem_used'', PInt 0), (''free_mem'', PInt 27),
        (''buffer_mem'', PInt 21), (''cache_mem'', PInt 74),
        (''inactive_mem'', PNone), (''active_mem'', PNone),
        (''swap_in'', PInt 0), (''swap_out'', PInt 0), (''blocks_in'', PInt 1),
        (''blocks_out'', PInt 3), (''interrupts'', PInt 29),
        (''context_switches'', PInt 57), (''user_time'', PInt 0),
        (''system_time'', PInt 0), (''idle_time'', PInt 99),
        (''io_wait_time'', PInt 0), (''stolen_time'', PInt 0),
        (''timestamp'', PNone), (''timezone'', PNone)]] \<and>
   is_null
       [(''runnable_procs'', PInt 2), (''uninterruptible_sleeping_procs'', PInt 0),
        (''virtual_mem_used'', PInt 0), (''free_mem'', PInt 27),
        (''buffer_mem'', PInt 21), (''cache_mem'', PInt 74),
        (''inactive_mem'', PNone), (''active_mem'', PNone),
        (''swap_in'', PInt 0), (''swap_out'', PInt 0), (''blocks_in'', PInt 1),
        (''blocks_out'', PInt 3), (''interrupts'', PInt 29),
        (''context_switches'', PInt 57), (''user_time'', PInt 0),
        (''system_time'', PInt 0), (''idle_time'', PInt 99),
        (''io_wait_time'', PInt 0), (''stolen_time'', PInt 0),
        (''timestamp'', PNone), (''timezone'', PNone)] ''inactive_mem'' \<and>
   emitted_value demo_utils False ''21'' = PInt 21 \<and>
   emitted_value demo_utils False ''74'' = PInt 74"
proof -
  let ?st = "init\<lparr>procs := Some True, tstamp := Some False, buff_cache := Some True\<rparr>"
  let ?line = "''2 0 0 27 21 74 0 0 1 3 29 57 0 0 99 0 0''"
  let ?raw = "[(''runnable_procs'', PStr ''2''), (''uninterruptible_sleeping_procs'', PStr ''0''),
        (''virtual_mem_used'', PStr ''0''), (''free_mem'', PStr ''27''),
        (''buffer_mem'', PStr ''21''), (''cache_mem'', PStr ''74''),
        (''inactive_mem'', PNone), (''active_mem'', PNone),
        (''swap_in'', PStr ''0''), (''swap_out'', PStr ''0''), (''blocks_in'', PStr ''1''),
        (''blocks_out'', PStr ''3''), (''interrupts'', PStr ''29''),
        (''context_switches'', PStr ''57''), (''user_time'', PStr ''0''),
        (''system_time'', PStr ''0''), (''idle_time'', PStr ''99''),
        (''io_wait_time'', PStr ''0''), (''stolen_time'', PStr ''0''),
        (''timestamp'', PNone), (''timezone'', PNone)]"
  let ?norm = "[(''runnable_procs'', PInt 2), (''uninterruptible_sleeping_procs'', PInt 0),
        (''virtual_mem_used'', PInt 0), (''free_mem'', PInt 27),
        (''buffer_mem'', PInt 21), (''cache_mem'', PInt 74),
        (''inactive_mem'', PNone), (''active_mem'', PNone),
        (''swap_in'', PInt 0), (''swap_out'', PInt 0), (''blocks_in'', PInt 1),
        (''blocks_out'', PInt 3), (''interrupts'', PInt 29),
        (''context_switches'', PInt 57), (''user_time'', PInt 0),
        (''system_time'', PInt 0), (''idle_time'', PInt 99),
        (''io_wait_time'', PInt 0), (''stolen_time'', PInt 0),
        (''timestamp'', PNone), (''timezone'', PNone)]"
  have f: "flag (procs ?st)" "\<not> flag (disk ?st)" by (simp_all add: init_def)
  have d: "data_line ?st ?line" by code_simp
  have rc: "procs_record ?st (split (Some 17) (strip ?line)) = ?raw" by code_simp
  have pr: "process demo_utils ?raw = Inr ?norm" by code_simp
  have t: "split (Some 17) (strip ?line) ! 4 = ''21''" "split (Some 17) (strip ?line) ! 5 = ''74''"
    by code_simp+
  have nn: "to_int demo_utils ''21'' \<noteq> None" "to_int demo_utils ''74'' \<noteq> None" by code_simp+
  note inst = variant_decides_memory_pair[OF f, where U = demo_utils and ign = True
      and line = ?line and rest = "[]" and raw = False and ls = "[PyStr ?line]" and r = ?raw
      and r' = ?norm]
  note step = inst[THEN conjunct1, THEN mp, OF d]
  have o1: "outputs (parse_loop demo_utils True True ?st [PyStr ?line]) = [Success ?raw]"
    using step[THEN conjunct1] by (simp add: rc)
  have o2: "outputs (parse_loop demo_utils False True ?st [PyStr ?line]) = [Success ?norm]"
    using step[THEN conjunct2] by (simp add: rc pr)
  have m: "Success ?raw \<in> set (outputs (parse_loop demo_utils True True ?st [PyStr ?line]))"
    by (simp add: o1)
  have y: "snd (parse_line demo_utils False ?st (PyStr ?line)) = Inr (Some ?norm)" by code_simp
  have b: "flag (buff_cache ?st)" by (simp add: init_def)
  have pair: "buffer_pair_only ?raw \<or> inactive_pair_only ?raw"
    using inst[THEN conjunct2, THEN conjunct1, THEN mp, OF m] by (rule conjunct1)
  have "\<not> inactive_pair_only ?raw" by (simp add: inactive_pair_only_def non_null_def)
  with pair have p: "buffer_pair_only ?raw" by blast
  have e1: "emitted_value demo_utils False ''21'' = PInt 21"
    using inst[THEN conjunct2, THEN conjunct2, THEN conjunct2, THEN conjunct1, THEN mp, OF y] b
    by (simp add: t)
  have e2: "emitted_value demo_utils False ''74'' = PInt 74"
    using inst[THEN conjunct2, THEN conjunct2, THEN conjunct2, THEN conjunct1, THEN mp, OF y] b
    by (simp add: t)
  note inst' = variant_decides_memory_pair[OF f, where U = demo_utils and ign = True
      and raw = False and ls = "[PyStr ?line]" and r = ?norm]
  have m': "Success ?norm \<in> set (outputs (parse_loop demo_utils False True ?st [PyStr ?line]))"
    by (simp add: o2)
  have nb: "\<not> is_null ?norm ''buffer_mem''" by (simp add: is_null_def)
  have n: "is_null ?norm ''inactive_mem''"
    using inst'[THEN conjunct2, THEN conjunct2, THEN conjunct1, THEN mp, OF m'] nb by blast
  from o1 p o2 n e1 e2 show ?thesis by (intro conjI)
qed

text \<open>
  Claim C3 as stated fails for normalized records: with a converter that returns
  \<open>None\<close> for a text that denotes no integer, a line whose tokens 4 and 5 are no
  integers yields a record in which both pairs are null.
\<close>

theorem both_memory_pairs_null_counterexample:
  "parse_default tolerant_utils
     (Iterable [PyStr ''procs'', PyStr ''swpd free buff cache'',
                PyStr ''2 0 0 27 x y 0 0 1 3 29 57 0 0 99 0 0''])
   = ([Success
        [(''runnable_procs'', PInt 2), (''uninterruptible_sleeping_procs'', PInt 0),
         (''virtual_mem_used'', PInt 0), (''free_mem'', PInt 27),
         (''buffer_mem'', PNone), (''cache_mem'', PNone),
         (''inactive_mem'', PNone), (''active_mem'', PNone),
         (''swap_in'', PInt 0), (''swap_out'', PInt 0), (''blocks_in'', PInt 1),
         (''blocks_out'', PInt 3), (''interrupts'', PInt 29),
         (''context_switches'', PInt 57), (''user_time'', PInt 0),
         (''system_time'', PInt 0), (''idle_time'', PInt 99),
         (''io_wait_time'', PInt 0), (''stolen_time'', PInt 0),
         (''timestamp'', PNone), (''timezone'', PNone)]], Exhausted)"
  by code_simp

subsection \<open>Claim C4: a data line with too few tokens\<close>

text \<open>
  Claim C4, as amended. In a state with a family set, a data line with fewer
  whitespace-delimited tokens than the family needs raises \<open>IndexError\<close> in the dict
  display: the line yields no record, partial or otherwise, and leaves the state as it
  was, whatever the flags. With \<open>ignore_exceptions=True\<close> the line yields one Error
  value and the loop goes on with the next element in the same state; with the default
  \<open>ignore_exceptions=False\<close> the line ends the stream. With \<open>ignore_exceptions=True\<close>,
  a structurally valid data line right after the short one yields a Success in raw mode;
  after normalization it yields a Success exactly when its normalization does not raise
  (the converter raises on none of its numeric tokens, and the timestamp, if the column
  is on, resolves), and an Error otherwise.
\<close>

theorem short_line_is_an_inline_error:
  assumes "(flag (procs st) \<and> \<not> flag (disk st)) \<or> (\<not> flag (procs st) \<and> flag (disk st))"
    and "\<not> is_blank (PyStr line)" "\<not> consumed (PyStr line)"
    and "length (split None (strip line)) < min_tokens st"
  shows
   "parse_line U raw st (PyStr line) = (st, Inl IndexError) \<and>
    parse_loop U raw True st (PyStr line # rest) =
      yield (Error IndexError (PyStr line)) (parse_loop U raw True st rest) \<and>
    parse_loop U raw False st (PyStr line # rest) = (st, [], Raised IndexError) \<and>
    (data_line st good \<longrightarrow>
       parse_loop U True True st (PyStr line # PyStr good # rest) =
         yield (Error IndexError (PyStr line))
           (yield (Success (family_record st good)) (parse_loop U True True st rest))) \<and>
    (data_line st good \<and> normalizable U st good \<longrightarrow>
       (\<exists>n. process U (family_record st good) = Inr n \<and>
            parse_loop U False True st (PyStr line # PyStr good # rest) =
              yield (Error IndexError (PyStr line))
                (yield (Success n) (parse_loop U False True st rest)))) \<and>
    (data_line st good \<and> \<not> normalizable U st good \<longrightarrow>
       (\<exists>e. process U (family_record st good) = Inl e \<and>
            parse_loop U False True st (PyStr line # PyStr good # rest) =
              yield (Error IndexError (PyStr line))
                (yield (Error e (PyStr good)) (parse_loop U False True st rest))))"
proof -
  have pl: "parse_line U raw st (PyStr line) = (st, Inl IndexError)" for raw
    using parse_line_data[OF assms(2,3), of U raw st]
          family_data_result_short[OF assms(1,4), of U raw] by simp
  have one: "parse_loop U raw True st (PyStr line # zs) =
      yield (Error IndexError (PyStr line)) (parse_loop U raw True st zs)" for raw zs
    using parse_loop_handled[OF pl, of raw True zs] by (simp add: handled_simps)
  have stop: "parse_loop U raw False st (PyStr line # rest) = (st, [], Raised IndexError)"
    using parse_loop_handled[OF pl, of raw False rest] by (simp add: handled_simps)
  have c4: "data_line st good \<longrightarrow>
       parse_loop U True True st (PyStr line # PyStr good # rest) =
         yield (Error IndexError (PyStr line))
           (yield (Success (family_record st good)) (parse_loop U True True st rest))"
    using one[of True "PyStr good # rest"] data_line_raw[OF assms(1), of good U True rest]
    by simp
  have c5: "data_line st good \<and> normalizable U st good \<longrightarrow>
       (\<exists>n. process U (family_record st good) = Inr n \<and>
            parse_loop U False True st (PyStr line # PyStr good # rest) =
              yield (Error IndexError (PyStr line))
                (yield (Success n) (parse_loop U False True st rest)))"
    using one[of False "PyStr good # rest"]
          normalizable_step(1)[OF assms(1), of good U True rest]
    by auto
  have c6: "data_line st good \<and> \<not> normalizable U st good \<longrightarrow>
       (\<exists>e. process U (family_record st good) = Inl e \<and>
            parse_loop U False True st (PyStr line # PyStr good # rest) =
              yield (Error IndexError (PyStr line))
                (yield (Error e (PyStr good)) (parse_loop U False True st rest)))"
    using one[of False "PyStr good # rest"]
          normalizable_step(2)[OF assms(1), of good U True rest]
    by (auto simp: handled_simps)
  from pl[of raw] one[of raw rest] stop c4 c5 c6 show ?thesis by (intro conjI)
qed

text \<open>
  The theorem in a process-family state with the buffer/cache variant: a line of five
  tokens, then a line of 17 integers, raw and normalized; and a line of five tokens,
  then a line of 17 tokens of which one is no integer, normalized with the converter
  that raises.
\<close>

theorem short_line_is_an_inline_error_witness:
  "outputs (parse_loop demo_utils True True
     (init\<lparr>procs := Some True, tstamp := Some False, buff_cache := Some True\<rparr>)
     [PyStr ''2 0 0 27 21'', PyStr ''2 0 0 27 21 74 0 0 1 3 29 57 0 0 99 0 0'']) =
     [Error IndexError (PyStr ''2 0 0 27 21''),
      Success
       [(''runnable_procs'', PStr ''2''), (''uninterruptible_sleeping_procs'', PStr ''0''),
        (''virtual_mem_used'', PStr ''0''), (''free_mem'', PStr ''27''),
        (''buffer_mem'', PStr ''21''), (''cache_mem'', PStr ''74''),
        (''inactive_mem'', PNone), (''active_mem'', PNone),
        (''swap_in'', PStr ''0''), (''swap_out'', PStr ''0''), (''blocks_in'', PStr ''1''),
        (''blocks_out'', PStr ''3''), (''interrupts'', PStr ''29''),
        (''context_switches'', PStr ''57''), (''user_time'', PStr ''0''),
        (''system_time'', PStr ''0''), (''idle_time'', PStr ''99''),
        (''io_wait_time'', PStr ''0''), (''stolen_time'', PStr ''0''),
        (''timestamp'', PNone), (''timezone'', PNone)]] \<and>
   outputs (parse_loop demo_utils False True
     (init\<lparr>procs := Some True, tstamp := Some False, buff_cache := Some True\<rparr>)
     [PyStr ''2 0 0 27 21'', PyStr ''2 0 0 27 21 74 0 0 1 3 29 57 0 0 99 0 0'']) =
     [Error IndexError (PyStr ''2 0 0 27 21''),
      Success
       [(''runnable_procs'', PInt 2), (''uninterruptible_sleeping_procs'', PInt 0),
        (''virtual_mem_used'', PInt 0), (''free_mem'', PInt 27),
        (''buffer_mem'', PInt 21), (''cache_mem'', PInt 74),
        (''inactive_mem'', PNone), (''active_mem'', PNone),
        (''swap_in'', PInt 0), (''swap_out'', PInt 0), (''blocks_in'', PInt 1),
        (''blocks_out'', PInt 3), (''interrupts'', PInt 29),
        (''context_switches'', PInt 57), (''user_time'', PInt 0),
        (''system_time'', PInt 0), (''idle_time'', PInt 99),
        (''io_wait_time'', PInt 0), (''stolen_time'', PInt 0),
        (''timestamp'', PNone), (''timezone'', PNone)]] \<and>
   outputs (parse_loop demo_utils False True
     (init\<lparr>procs := Some True, tstamp := Some False, buff_cache := Some True\<rparr>)
     [PyStr ''2 0 0 27 21'', PyStr ''2 0 0 27 x 74 0 0 1 3 29 57 0 0 99 0 0'']) =
     [Error IndexError (PyStr ''2 0 0 27 21''),
      Error (ConversionFault ''x'') (PyStr ''2 0 0 27 x 74 0 0 1 3 29 57 0 0 99 0 0'')] \<and>
   parse_loop demo_utils False False
     (init\<lparr>procs := Some True, tstamp := Some False, buff_cache := Some True\<rparr>)
     [PyStr ''2 0 0 27 21'', PyStr ''2 0 0 27 21 74 0 0 1 3 29 57 0 0 99 0 0''] =
     (init\<lparr>procs := Some True, tstamp := Some False, buff_cache := Some True\<rparr>, [],
      Raised IndexError)"
proof -
  let ?st = "init\<lparr>procs := Some True, tstamp := Some False, buff_cache := Some True\<rparr>"
  let ?short = "''2 0 0 27 21''"
  let ?good = "''2 0 0 27 21 74 0 0 1 3 29 57 0 0 99 0 0''"
  let ?bad = "''2 0 0 27 x 74 0 0 1 3 29 57 0 0 99 0 0''"
  let ?raw = "[(''runnable_procs'', PStr ''2''), (''uninterruptible_sleeping_procs'', PStr ''0''),
        (''virtual_mem_used'', PStr ''0''), (''free_mem'', PStr ''27''),
        (''buffer_mem'', PStr ''21''), (''cache_mem'', PStr ''74''),
        (''inactive_mem'', PNone), (''active_mem'', PNone),
        (''swap_in'', PStr ''0''), (''swap_out'', PStr ''0''), (''blocks_in'', PStr ''1''),
        (''blocks_out'', PStr ''3''), (''interrupts'', PStr ''29''),
        (''context_switches'', PStr ''57''), (''user_time'', PStr ''0''),
        (''system_time'', PStr ''0''), (''idle_time'', PStr ''99''),
        (''io_wait_time'', PStr ''0''), (''stolen_time'', PStr ''0''),
        (''timestamp'', PNone), (''timezone'', PNone)]"
  let ?norm = "[(''runnable_procs'', PInt 2), (''uninterruptible_sleeping_procs'', PInt 0),
        (''virtual_mem_used'', PInt 0), (''free_mem'', PInt 27),
        (''buffer_mem'', PInt 21), (''cache_mem'', PInt 74),
        (''inactive_mem'', PNone), (''active_mem'', PNone),
        (''swap_in'', PInt 0), (''swap_out'', PInt 0), (''blocks_in'', PInt 1),
        (''blocks_out'', PInt 3), (''interrupts'', PInt 29),
        (''context_switches'', PInt 57), (''user_time'', PInt 0),
        (''system_time'', PInt 0), (''idle_time'', PInt 99),
        (''io_wait_time'', PInt 0), (''stolen_time'', PInt 0),
        (''timestamp'', PNone), (''timezone'', PNone)]"
  have f: "(flag (procs ?st) \<and> \<not> flag (disk ?st)) \<or> (\<not> flag (procs ?st) \<and> flag (disk ?st))"
    by (simp add: init_def)
  have b: "\<not> is_blank (PyStr ?short)" "\<not> consumed (PyStr ?short)" by code_simp+
  have s: "length (split None (strip ?short)) < min_tokens ?st" by code_simp
  have dg: "data_line ?st ?good" by code_simp
  have db: "data_line ?st ?bad" by code_simp
  have ng: "normalizable demo_utils ?st ?good" by code_simp
  have nb: "\<not> normalizable demo_utils ?st ?bad" by code_simp
  have rc: "family_record ?st ?good = ?raw" by code_simp
  have pr: "process demo_utils ?raw = Inr ?norm" by code_simp
  have pb: "process demo_utils (family_record ?st ?bad) = Inl (ConversionFault ''x'')"
    by code_simp
  note g = short_line_is_an_inline_error[OF f b s, where U = demo_utils and rest = "[]"
      and good = ?good and raw = False]
  note x = short_line_is_an_inline_error[OF f b s, where U = demo_utils and rest = "[]"
      and good = ?bad and raw = False]
  note stop = short_line_is_an_inline_error[OF f b s, where U = demo_utils
      and rest = "[PyStr ?good]" and raw = False]
  have o1: "outputs (parse_loop demo_utils True True ?st [PyStr ?short, PyStr ?good]) =
     [Error IndexError (PyStr ?short), Success ?raw]"
    using g[THEN conjunct2, THEN conjunct2, THEN conjunct2, THEN conjunct1, THEN mp, OF dg]
    by (simp add: rc)
  have o2: "outputs (parse_loop demo_utils False True ?st [PyStr ?short, PyStr ?good]) =
     [Error IndexError (PyStr ?short), Success ?norm]"
    using g[THEN conjunct2, THEN conjunct2, THEN conjunct2, THEN conjunct2, THEN conjunct1,
            THEN mp, OF conjI[OF dg ng]]
    by (auto simp: rc pr)
  have o3: "outputs (parse_loop demo_utils False True ?st [PyStr ?short, PyStr ?bad]) =
     [Error IndexError (PyStr ?short), Error (ConversionFault ''x'') (PyStr ?bad)]"
    using x[THEN conjunct2, THEN conjunct2, THEN conjunct2, THEN conjunct2, THEN conjunct2,
            THEN mp, OF conjI[OF db nb]]
    by (auto simp: pb)
  have o4: "parse_loop demo_utils False False ?st [PyStr ?short, PyStr ?good] =
     (?st, [], Raised IndexError)"
    using stop[THEN conjunct2, THEN conjunct2, THEN conjunct1] .
  from o1 o2 o3 o4 show ?thesis by (intro conjI)
qed

text \<open>
  Claim C4 as stated fails. With the defaults of the signature (the spec's Scenario B)
  the short line yields no Error value, and the valid line after it yields no Success.
  With \<open>ignore_exceptions=True\<close> the short line is an Error, and so is a line after it
  that has enough tokens, one of which the converter raises on.
\<close>

theorem default_short_line_counterexample:
  "parse_default demo_utils
     (Iterable [PyStr ''procs --memory--'', PyStr '' r b swpd free buff cache si so'',
                PyStr ''2 0 0 27 21'',
                PyStr ''2 0 0 27 21 74 0 0 1 3 29 57 0 0 99 0 0''])
   = ([], Raised IndexError) \<and>
   parse demo_utils
     (Iterable [PyStr ''procs'', PyStr ''2 0 0 27 21'',
                PyStr ''2 0 0 27 x 74 0 0 1 3 29 57 0 0 99 0 0''])
     False False True
   = ([Error IndexError (PyStr ''2 0 0 27 21''),
       Error (ConversionFault ''x'') (PyStr ''2 0 0 27 x 74 0 0 1 3 29 57 0 0 99 0 0'')],
      Exhausted)"
  by code_simp

subsection \<open>Claim C5: the epoch fields\<close>

text \<open>
  Claim C5, as amended. \<open>_process\<close> assigns \<open>epoch\<close> and \<open>epoch_utc\<close> together, under the
  one test of the \<open>timestamp\<close> field, so the key \<open>epoch_utc\<close> is in a normalized record
  exactly when \<open>epoch\<close> is, whatever the zone: it is not omitted for a zone other than
  UTC. What holds, for a normalized record yielded from a state with at most one family
  set (every state reached from \<open>init\<close> is one): the keys \<open>epoch\<close> and \<open>epoch_utc\<close> are
  both present if and only if timestamp detection is on; the line is then a data line
  with a timestamp token, and \<open>epoch\<close> holds the \<open>naive\<close> value and \<open>epoch_utc\<close> the
  \<open>utc\<close> value of what \<open>jc.utils.timestamp\<close> gives for the timestamp token, a blank
  and the timezone code (\<open>None\<close> when there is none). A data line whose normalization
  does not raise yields such a record. A raw record has neither key.
\<close>

theorem epoch_fields_of_a_record:
  "wf_state (final_state (parse_loop U raw ign init pre)) \<and>
   (wf_state st \<and> snd (parse_line U False st (PyStr line)) = Inr (Some r) \<longrightarrow>
      (map_of r ''epoch'' \<noteq> None) = flag (tstamp st) \<and>
      (map_of r ''epoch_utc'' \<noteq> None) = flag (tstamp st) \<and>
      (flag (tstamp st) \<longrightarrow>
         data_line st line \<and>
         (\<exists>res. timestamp U (timestamp_token st line @ '' '' @ str (or_none (tz st))) = Inr res \<and>
                map_of r ''epoch'' = Some (naive res) \<and>
                map_of r ''epoch_utc'' = Some (utc res)))) \<and>
   (wf_state st \<and> (flag (procs st) \<or> flag (disk st)) \<and> data_line st line \<and>
    normalizable U st line \<longrightarrow>
      (\<exists>n. process U (family_record st line) = Inr n \<and>
           parse_loop U False ign st (PyStr line # rest) =
             yield (Success n) (parse_loop U False ign st rest))) \<and>
   (wf_state st \<and> snd (parse_line U True st (PyStr line)) = Inr (Some r) \<longrightarrow>
      map_of r ''epoch'' = None \<and> map_of r ''epoch_utc'' = None)"
proof (intro conjI impI)
  show "wf_state (final_state (parse_loop U raw ign init pre))" by (rule wf_reachable)
next
  assume a: "wf_state st \<and> snd (parse_line U False st (PyStr line)) = Inr (Some r)"
  then have wf: "wf_state st" and y: "snd (parse_line U False st (PyStr line)) = Inr (Some r)"
    by auto
  note src = yielded_record_source[OF wf y]
  have p: "process U (family_record st line) = Inr r" using src(3) by simp
  have m: "min_tokens st \<le> length (split None (strip line))"
    using src(2) by (simp add: data_line_def)
  let ?t = "if flag (tstamp st) then PStr (timestamp_token st line) else PNone"
  have tr: "truthy ?t = flag (tstamp st)"
    using timestamp_token_nonempty[OF src(1) _ m] by simp
  note pe = process_epoch[OF p family_record_keys]
  show "(map_of r ''epoch'' \<noteq> None) = flag (tstamp st)"
    using pe tr by (auto split: if_splits)
  show "(map_of r ''epoch_utc'' \<noteq> None) = flag (tstamp st)"
    using pe tr by (auto split: if_splits)
  assume f: "flag (tstamp st)"
  show "data_line st line" by (rule src(2))
  show "\<exists>res. timestamp U (timestamp_token st line @ '' '' @ str (or_none (tz st))) = Inr res \<and>
                map_of r ''epoch'' = Some (naive res) \<and>
                map_of r ''epoch_utc'' = Some (utc res)"
    using pe tr f by simp
next
  assume a: "wf_state st \<and> (flag (procs st) \<or> flag (disk st)) \<and> data_line st line \<and>
    normalizable U st line"
  then have fam: "(flag (procs st) \<and> \<not> flag (disk st)) \<or> (\<not> flag (procs st) \<and> flag (disk st))"
    by (auto simp: wf_state_def)
  from a have d: "data_line st line" and n: "normalizable U st line" by auto
  show "\<exists>n. process U (family_record st line) = Inr n \<and>
           parse_loop U False ign st (PyStr line # rest) =
             yield (Success n) (parse_loop U False ign st rest)"
    by (rule normalizable_step(1)[OF fam d n])
next
  assume a: "wf_state st \<and> snd (parse_line U True st (PyStr line)) = Inr (Some r)"
  then have wf: "wf_state st" and y: "snd (parse_line U True st (PyStr line)) = Inr (Some r)"
    by auto
  have r: "r = family_record st line" using yielded_record_source(3)[OF wf y] by simp
  show "map_of r ''epoch'' = None" by (simp add: r family_record_keys)
  show "map_of r ''epoch_utc'' = None" by (simp add: r family_record_keys)
qed

text \<open>
  The theorem in a process-family state with the timestamp column on and the zone
  \<open>UTC\<close>, at a line of 17 tokens and a timestamp, normalized with the resolver
  that gives the epoch 0, and raw.
\<close>

theorem epoch_fields_of_a_record_witness:
  "wf_state (final_state (parse_loop demo_utils False True init
      [PyStr ''procs -timestamp-'', PyStr ''swpd free inact active UTC''])) \<and>
   outputs (parse_loop demo_utils False True
      (init\<lparr>procs := Some True, tstamp := Some True, tz := Some ''UTC''\<rparr>)
      [PyStr ''2 0 0 27 21 74 0 0 1 3 29 57 0 0 99 0 0 2021-09-16 20:33:13'']) =
     [Success
       [(''runnable_procs'', PInt 2), (''uninterruptible_sleeping_procs'', PInt 0),
        (''virtual_mem_used'', PInt 0), (''free_mem'', PInt 27), (''buffer_mem'', PNone),
        (''cache_mem'', PNone), (''inactive_mem'', PInt 21), (''active_mem'', PInt 74),
        (''swap_in'', PInt 0), (''swap_out'', PInt 0), (''blocks_in'', PInt 1),
        (''blocks_out'', PInt 3), (''interrupts'', PInt 29), (''context_switches'', PInt 57),
        (''user_time'', PInt 0), (''system_time'', PInt 0), (''idle_time'', PInt 99),
        (''io_wait_time'', PInt 0), (''stolen_time'', PInt 0),
        (''timestamp'', PStr ''2021-09-16 20:33:13''), (''timezone'', PStr ''UTC''),
        (''epoch'', PInt 0), (''epoch_utc'', PInt 0)]] \<and>
   timestamp demo_utils ''2021-09-16 20:33:13 UTC'' = Inr \<lparr>naive = PInt 0, utc = PInt 0\<rparr> \<and>
   data_line (init\<lparr>procs := Some True, tstamp := Some True, tz := Some ''UTC''\<rparr>)
     ''2 0 0 27 21 74 0 0 1 3 29 57 0 0 99 0 0 2021-09-16 20:33:13'' \<and>
   snd (parse_line demo_utils True
      (init\<lparr>procs := Some True, tstamp := Some True, tz := Some ''UTC''\<rparr>)
      (PyStr ''2 0 0 27 21 74 0 0 1 3 29 57 0 0 99 0 0 2021-09-16 20:33:13'')) =
     Inr (Some (family_record
       (init\<lparr>procs := Some True, tstamp := Some True, tz := Some ''UTC''\<rparr>)
       ''2 0 0 27 21 74 0 0 1 3 29 57 0 0 99 0 0 2021-09-16 20:33:13'')) \<and>
   map_of (family_record
       (init\<lparr>procs := Some True, tstamp := Some True, tz := Some ''UTC''\<rparr>)
       ''2 0 0 27 21 74 0 0 1 3 29 57 0 0 99 0 0 2021-09-16 20:33:13'') ''epoch'' = None \<and>
   map_of (family_record
       (init\<lparr>procs := Some True, tstamp := Some True, tz := Some ''UTC''\<rparr>)
       ''2 0 0 27 21 74 0 0 1 3 29 57 0 0 99 0 0 2021-09-16 20:33:13'') ''epoch_utc'' = None"
proof -
  let ?st = "init\<lparr>procs := Some True, tstamp := Some True, tz := Some ''UTC''\<rparr>"
  let ?line = "''2 0 0 27 21 74 0 0 1 3 29 57 0 0 99 0 0 2021-09-16 20:33:13''"
  let ?r = "[(''runnable_procs'', PInt 2), (''uninterruptible_sleeping_procs'', PInt 0),
      (''virtual_mem_used'', PInt 0), (''free_mem'', PInt 27), (''buffer_mem'', PNone),
      (''cache_mem'', PNone), (''inactive_mem'', PInt 21), (''active_mem'', PInt 74),
      (''swap_in'', PInt 0), (''swap_out'', PInt 0), (''blocks_in'', PInt 1),
      (''blocks_out'', PInt 3), (''interrupts'', PInt 29), (''context_switches'', PInt 57),
      (''user_time'', PInt 0), (''system_time'', PInt 0), (''idle_time'', PInt 99),
      (''io_wait_time'', PInt 0), (''stolen_time'', PInt 0),
      (''timestamp'', PStr ''2021-09-16 20:33:13''), (''timezone'', PStr ''UTC''),
      (''epoch'', PInt 0), (''epoch_utc'', PInt 0)]"
  have w: "wf_state ?st" by (simp add: wf_state_def init_def)
  have y: "snd (parse_line demo_utils False ?st (PyStr ?line)) = Inr (Some ?r)"
    by code_simp
  have f: "flag (tstamp ?st)" "flag (procs ?st) \<or> flag (disk ?st)" by (simp_all add: init_def)
  have d: "data_line ?st ?line" by code_simp
  have nz: "normalizable demo_utils ?st ?line" by code_simp
  have pr: "process demo_utils (family_record ?st ?line) = Inr ?r" by code_simp
  have tk: "timestamp_token ?st ?line @ '' '' @ str (or_none (tz ?st)) = ''2021-09-16 20:33:13 UTC''"
    by code_simp
  note inst = epoch_fields_of_a_record[where U = demo_utils and raw = False and ign = True
      and pre = "[PyStr ''procs -timestamp-'', PyStr ''swpd free inact active UTC'']"
      and st = ?st and line = ?line and r = ?r and rest = "[]"]
  have c0: "wf_state (final_state (parse_loop demo_utils False True init
      [PyStr ''procs -timestamp-'', PyStr ''swpd free inact active UTC'']))"
    using inst by (rule conjunct1)
  note fields = inst[THEN conjunct2, THEN conjunct1, THEN mp, OF conjI[OF w y],
      THEN conjunct2, THEN conjunct2, THEN mp, OF f(1)]
  have c1: "outputs (parse_loop demo_utils False True ?st [PyStr ?line]) = [Success ?r]"
    using inst[THEN conjunct2, THEN conjunct2, THEN conjunct1, THEN mp,
               OF conjI[OF w conjI[OF f(2) conjI[OF d nz]]]]
    by (auto simp: pr)
  have c2: "timestamp demo_utils ''2021-09-16 20:33:13 UTC'' = Inr \<lparr>naive = PInt 0, utc = PInt 0\<rparr>"
    using fields[THEN conjunct2] unfolding tk by auto
  have c3: "data_line ?st ?line" using fields by (rule conjunct1)
  have yr: "snd (parse_line demo_utils True ?st (PyStr ?line)) =
            Inr (Some (family_record ?st ?line))"
    by code_simp
  note rawi = epoch_fields_of_a_record[where U = demo_utils and st = ?st and line = ?line
      and r = "family_record ?st ?line", THEN conjunct2, THEN conjunct2, THEN conjunct2,
      THEN mp, OF conjI[OF w yr]]
  have c4: "map_of (family_record ?st ?line) ''epoch'' = None" using rawi by (rule conjunct1)
  have c5: "map_of (family_record ?st ?line) ''epoch_utc'' = None" using rawi by (rule conjunct2)
  from c0 c1 c2 c3 yr c4 c5 show ?thesis by (intro conjI)
qed

text \<open>
  Claim C5 as stated fails: with the zone \<open>EST\<close> the record still has the field
  \<open>epoch_utc\<close>; it holds the \<open>utc\<close> value of the resolver, here null.
\<close>

theorem epoch_utc_key_counterexample:
  "parse_default demo_utils
     (Iterable [PyStr ''procs -timestamp-'', PyStr ''swpd free inact active EST'',
                PyStr ''2 0 0 27 21 74 0 0 1 3 29 57 0 0 99 0 0 2021-09-16 20:33:13''])
   = ([Success
        [(''runnable_procs'', PInt 2), (''uninterruptible_sleeping_procs'', PInt 0),
         (''virtual_mem_used'', PInt 0), (''free_mem'', PInt 27), (''buffer_mem'', PNone),
         (''cache_mem'', PNone), (''inactive_mem'', PInt 21), (''active_mem'', PInt 74),
         (''swap_in'', PInt 0), (''swap_out'', PInt 0), (''blocks_in'', PInt 1),
         (''blocks_out'', PInt 3), (''interrupts'', PInt 29), (''context_switches'', PInt 57),
         (''user_time'', PInt 0), (''system_time'', PInt 0), (''idle_time'', PInt 99),
         (''io_wait_time'', PInt 0), (''stolen_time'', PInt 0),
         (''timestamp'', PStr ''2021-09-16 20:33:13''), (''timezone'', PStr ''EST''),
         (''epoch'', PInt 0), (''epoch_utc'', PNone)]], Exhausted)"
  by code_simp

subsection \<open>Claim C6: which state fields are written, and when\<close>

text \<open>
  Claim C6, as amended. The family flags and the timestamp flag are written once: from a
  state in which a family is set, no run changes \<open>procs\<close>, \<open>disk\<close> or \<open>tstamp\<close>.
  A line that starts with \<open>procs\<close> or \<open>disk\<close> after the family is set is skipped and
  leaves the whole state as it was, the variant included. The variant and the timezone
  code are not write-once: every header line (a non-blank line that does not start with
  \<open>procs\<close> or \<open>disk\<close> and has one of the three header shapes) is skipped and writes
  both again, the variant by its shape (\<open>True\<close> for Layout A, else \<open>False\<close> for
  Layout B, else as it was) and the timezone code as the last token of the line if the
  timestamp flag is on and as \<open>None\<close> if not; so a later header replaces what a former
  one set. Neither is cleared: a variant that is set stays set, and a timezone code that
  is set stays set in every run from a state in which the timestamp flag is on only
  with a family and a timezone code only with the timestamp flag; the states reached
  from the initial state are of this kind.
\<close>

theorem state_fields_written:
  "(flag (procs st) \<or> flag (disk st) \<longrightarrow>
      procs (final_state (parse_loop U raw ign st ls)) = procs st \<and>
      disk (final_state (parse_loop U raw ign st ls)) = disk st \<and>
      tstamp (final_state (parse_loop U raw ign st ls)) = tstamp st) \<and>
   ((flag (procs st) \<or> flag (disk st)) \<and> (startswith line ''procs'' \<or> startswith line ''disk'') \<longrightarrow>
      parse_line U raw st (PyStr line) = (st, Inr None) \<and>
      parse_loop U raw ign st (PyStr line # ls) = parse_loop U raw ign st ls) \<and>
   (strip line \<noteq> [] \<and> \<not> startswith line ''procs'' \<and> \<not> startswith line ''disk'' \<and>
    (layout_a line \<or> layout_b line \<or> disk_header line) \<longrightarrow>
      parse_line U raw st (PyStr line) =
        (st\<lparr>buff_cache := (if layout_a line then Some True
                            else if layout_b line then Some False else buff_cache st),
            tz := (if flag (tstamp st) then Some (last (split None (strip line))) else None)\<rparr>,
         Inr None) \<and>
      parse_loop U raw ign st (PyStr line # ls) =
        parse_loop U raw ign
          (st\<lparr>buff_cache := (if layout_a line then Some True
                              else if layout_b line then Some False else buff_cache st),
              tz := (if flag (tstamp st) then Some (last (split None (strip line))) else None)\<rparr>)
          ls) \<and>
   (buff_cache st \<noteq> None \<longrightarrow> buff_cache (final_state (parse_loop U raw ign st ls)) \<noteq> None) \<and>
   (tz_guard st \<and> tz st \<noteq> None \<longrightarrow> tz (final_state (parse_loop U raw ign st ls)) \<noteq> None) \<and>
   tz_guard (final_state (parse_loop U raw ign init pre))"
proof -
  have c1: "flag (procs st) \<or> flag (disk st) \<longrightarrow>
      procs (final_state (parse_loop U raw ign st ls)) = procs st \<and>
      disk (final_state (parse_loop U raw ign st ls)) = disk st \<and>
      tstamp (final_state (parse_loop U raw ign st ls)) = tstamp st"
    using family_fixed[of st U raw ign ls] by blast
  have c2: "(flag (procs st) \<or> flag (disk st)) \<and>
      (startswith line ''procs'' \<or> startswith line ''disk'') \<longrightarrow>
      parse_line U raw st (PyStr line) = (st, Inr None) \<and>
      parse_loop U raw ign st (PyStr line # ls) = parse_loop U raw ign st ls"
  proof
    assume "(flag (procs st) \<or> flag (disk st)) \<and>
      (startswith line ''procs'' \<or> startswith line ''disk'')"
    then have p: "parse_line U raw st (PyStr line) = (st, Inr None)"
      using marker_after_family[of st line U raw] by blast
    from p parse_loop_skip[OF p, of ign ls]
    show "parse_line U raw st (PyStr line) = (st, Inr None) \<and>
      parse_loop U raw ign st (PyStr line # ls) = parse_loop U raw ign st ls"
      by (rule conjI)
  qed
  let ?st' = "st\<lparr>buff_cache := (if layout_a line then Some True
                            else if layout_b line then Some False else buff_cache st),
            tz := (if flag (tstamp st) then Some (last (split None (strip line))) else None)\<rparr>"
  have c3: "strip line \<noteq> [] \<and> \<not> startswith line ''procs'' \<and> \<not> startswith line ''disk'' \<and>
    (layout_a line \<or> layout_b line \<or> disk_header line) \<longrightarrow>
      parse_line U raw st (PyStr line) = (?st', Inr None) \<and>
      parse_loop U raw ign st (PyStr line # ls) = parse_loop U raw ign ?st' ls"
  proof
    assume a: "strip line \<noteq> [] \<and> \<not> startswith line ''procs'' \<and> \<not> startswith line ''disk'' \<and>
      (layout_a line \<or> layout_b line \<or> disk_header line)"
    then have ne: "strip line \<noteq> []" by simp
    have s: "set_tz s line =
       (s\<lparr>tz := (if flag (tstamp s) then Some (last (split None (strip line))) else None)\<rparr>,
        Inr None)" for s
      using set_tz_state[OF ne, of s] set_tz_result[OF ne, of s]
      by (cases "set_tz s line") simp
    have p: "parse_line U raw st (PyStr line) = (?st', Inr None)"
      using a by (auto simp: parse_line_def s)
    from p parse_loop_skip[OF p, of ign ls]
    show "parse_line U raw st (PyStr line) = (?st', Inr None) \<and>
      parse_loop U raw ign st (PyStr line # ls) = parse_loop U raw ign ?st' ls"
      by (rule conjI)
  qed
  have c4: "buff_cache st \<noteq> None \<longrightarrow> buff_cache (final_state (parse_loop U raw ign st ls)) \<noteq> None"
    using variant_kept[of st U raw ign ls] by blast
  have c5: "tz_guard st \<and> tz st \<noteq> None \<longrightarrow> tz (final_state (parse_loop U raw ign st ls)) \<noteq> None"
    using tz_kept[of st U raw ign ls] by blast
  have c6: "tz_guard (final_state (parse_loop U raw ign init pre))"
    by (rule tz_guard_reachable)
  from c1 c2 c3 c4 c5 c6 show ?thesis by (intro conjI)
qed

text \<open>
  The theorem in a process-family state with the timestamp column on: a Layout A header
  with the zone \<open>EST\<close>, then a Layout B header with the zone \<open>UTC\<close>, then a marker line.
\<close>

theorem state_fields_written_witness:
  "parse_loop demo_utils False True (init\<lparr>procs := Some True, tstamp := Some True\<rparr>)
      [PyStr ''swpd free buff cache EST'', PyStr ''swpd free inact active UTC'',
       PyStr ''disk- -reads-''] =
     (init\<lparr>procs := Some True, tstamp := Some True, buff_cache := Some False,
           tz := Some ''UTC''\<rparr>, [], Exhausted) \<and>
   procs (final_state (parse_loop demo_utils False True
      (init\<lparr>procs := Some True, tstamp := Some True\<rparr>)
      [PyStr ''swpd free buff cache EST'', PyStr ''disk'', PyStr ''x''])) = Some True \<and>
   disk (final_state (parse_loop demo_utils False True
      (init\<lparr>procs := Some True, tstamp := Some True\<rparr>)
      [PyStr ''swpd free buff cache EST'', PyStr ''disk'', PyStr ''x''])) = None \<and>
   tstamp (final_state (parse_loop demo_utils False True
      (init\<lparr>procs := Some True, tstamp := Some True\<rparr>)
      [PyStr ''swpd free buff cache EST'', PyStr ''disk'', PyStr ''x''])) = Some True \<and>
   buff_cache (final_state (parse_loop demo_utils False True
      (init\<lparr>procs := Some True, tstamp := Some True, buff_cache := Some True,
            tz := Some ''EST''\<rparr>)
      [PyStr ''swpd free inact active UTC'', PyStr ''x''])) \<noteq> None \<and>
   tz (final_state (parse_loop demo_utils False True
      (init\<lparr>procs := Some True, tstamp := Some True, buff_cache := Some True,
            tz := Some ''EST''\<rparr>)
      [PyStr ''swpd free inact active UTC'', PyStr ''x''])) \<noteq> None \<and>
   tz_guard (final_state (parse_loop demo_utils False True init
      [PyStr ''procs -timestamp-'', PyStr ''swpd free buff cache EST'']))"
proof -
  let ?s0 = "init\<lparr>procs := Some True, tstamp := Some True\<rparr>"
  let ?s1 = "init\<lparr>procs := Some True, tstamp := Some True, buff_cache := Some True,
                  tz := Some ''EST''\<rparr>"
  let ?s2 = "init\<lparr>procs := Some True, tstamp := Some True, buff_cache := Some False,
                  tz := Some ''UTC''\<rparr>"
  let ?a = "''swpd free buff cache EST''"
  let ?b = "''swpd free inact active UTC''"
  let ?m = "''disk- -reads-''"
  let ?ls = "[PyStr ?a, PyStr ''disk'', PyStr ''x'']"
  let ?ks = "[PyStr ?b, PyStr ''x'']"
  have ha: "strip ?a \<noteq> [] \<and> \<not> startswith ?a ''procs'' \<and> \<not> startswith ?a ''disk'' \<and>
            (layout_a ?a \<or> layout_b ?a \<or> disk_header ?a)" by code_simp
  have hb: "strip ?b \<noteq> [] \<and> \<not> startswith ?b ''procs'' \<and> \<not> startswith ?b ''disk'' \<and>
            (layout_a ?b \<or> layout_b ?b \<or> disk_header ?b)" by code_simp
  have va: "layout_a ?a" "last (split None (strip ?a)) = ''EST''" by code_simp+
  have vb: "\<not> layout_a ?b" "layout_b ?b" "last (split None (strip ?b)) = ''UTC''" by code_simp+
  have f0: "flag (procs ?s0) \<or> flag (disk ?s0)" by simp
  have f2: "(flag (procs ?s2) \<or> flag (disk ?s2)) \<and>
            (startswith ?m ''procs'' \<or> startswith ?m ''disk'')" by code_simp
  have g1: "buff_cache ?s1 \<noteq> None" "tz_guard ?s1 \<and> tz ?s1 \<noteq> None"
    by (simp_all add: tz_guard_def init_def)
  note ia = state_fields_written[where st = ?s0 and U = demo_utils and raw = False
      and ign = True and line = ?a and ls = "[PyStr ?b, PyStr ?m]"]
  note ib = state_fields_written[where st = ?s1 and U = demo_utils and raw = False
      and ign = True and line = ?b and ls = "[PyStr ?m]"]
  note im = state_fields_written[where st = ?s2 and U = demo_utils and raw = False
      and ign = True and line = ?m and ls = "[]"]
  note i0 = state_fields_written[where st = ?s0 and U = demo_utils and raw = False
      and ign = True and ls = ?ls]
  note i1 = state_fields_written[where st = ?s1 and U = demo_utils and raw = False
      and ign = True and ls = ?ks
      and pre = "[PyStr ''procs -timestamp-'', PyStr ''swpd free buff cache EST'']"]
  have e1: "?s0\<lparr>buff_cache := (if layout_a ?a then Some True
                            else if layout_b ?a then Some False else buff_cache ?s0),
            tz := (if flag (tstamp ?s0) then Some (last (split None (strip ?a))) else None)\<rparr> = ?s1"
    by (simp add: va init_def)
  have e2: "?s1\<lparr>buff_cache := (if layout_a ?b then Some True
                            else if layout_b ?b then Some False else buff_cache ?s1),
            tz := (if flag (tstamp ?s1) then Some (last (split None (strip ?b))) else None)\<rparr> = ?s2"
    by (simp add: vb init_def)
  have sa: "parse_loop demo_utils False True ?s0 [PyStr ?a, PyStr ?b, PyStr ?m] =
            parse_loop demo_utils False True ?s1 [PyStr ?b, PyStr ?m]"
    using ia[THEN conjunct2, THEN conjunct2, THEN conjunct1, THEN mp, OF ha, THEN conjunct2]
    unfolding e1 .
  have sb: "parse_loop demo_utils False True ?s1 [PyStr ?b, PyStr ?m] =
            parse_loop demo_utils False True ?s2 [PyStr ?m]"
    using ib[THEN conjunct2, THEN conjunct2, THEN conjunct1, THEN mp, OF hb, THEN conjunct2]
    unfolding e2 .
  have sm: "parse_loop demo_utils False True ?s2 [PyStr ?m] =
            parse_loop demo_utils False True ?s2 []"
    using im[THEN conjunct2, THEN conjunct1, THEN mp, OF f2, THEN conjunct2] .
  have c1: "parse_loop demo_utils False True ?s0 [PyStr ?a, PyStr ?b, PyStr ?m] =
            (?s2, [], Exhausted)"
    unfolding sa sb sm by simp
  note fam = i0[THEN conjunct1, THEN mp, OF f0]
  have c2: "procs (final_state (parse_loop demo_utils False True ?s0 ?ls)) = Some True"
    using fam[THEN conjunct1] by simp
  have c3: "disk (final_state (parse_loop demo_utils False True ?s0 ?ls)) = None"
    using fam[THEN conjunct2, THEN conjunct1] by (simp add: init_def)
  have c4: "tstamp (final_state (parse_loop demo_utils False True ?s0 ?ls)) = Some True"
    using fam[THEN conjunct2, THEN conjunct2] by simp
  have c5: "buff_cache (final_state (parse_loop demo_utils False True ?s1 ?ks)) \<noteq> None"
    using i1[THEN conjunct2, THEN conjunct2, THEN conjunct2, THEN conjunct1, THEN mp, OF g1(1)] .
  have c6: "tz (final_state (parse_loop demo_utils False True ?s1 ?ks)) \<noteq> None"
    using i1[THEN conjunct2, THEN conjunct2, THEN conjunct2, THEN conjunct2, THEN conjunct1,
             THEN mp, OF g1(2)] .
  have c7: "tz_guard (final_state (parse_loop demo_utils False True init
      [PyStr ''procs -timestamp-'', PyStr ''swpd free buff cache EST'']))"
    using i1[THEN conjunct2, THEN conjunct2, THEN conjunct2, THEN conjunct2, THEN conjunct2] .
  from c1 c2 c3 c4 c5 c6 c7 show ?thesis by (intro conjI)
qed

text \<open>
  Claim C6 as stated fails: a Layout A header sets the variant, and a Layout B header
  later in the same stream overwrites it.
\<close>

theorem variant_overwritten_counterexample:
  "buff_cache (final_state (parse_loop demo_utils False True init
      [PyStr ''procs -----------memory----------'', PyStr '' r  b   swpd   free   buff  cache''])) = Some True \<and>
   buff_cache (final_state (parse_loop demo_utils False True init
      [PyStr ''procs -----------memory----------'', PyStr '' r  b   swpd   free   buff  cache'',
       PyStr '' r  b   swpd   free  inact active''])) = Some False"
  by code_simp

subsection \<open>Claim C7: the header shapes and the family\<close>

text \<open>
  Claim C7, as amended. The loop tests the header shapes with no test of the family, so
  the claim's "only when family is PROCESS" fails: in a disk stream, and before any
  marker, a header line sets the variant all the same. What holds, in every state: a
  non-blank line that does not start with \<open>procs\<close> or \<open>disk\<close> sets \<open>buff_cache\<close> to
  \<open>True\<close> if it has the Layout A column names, to \<open>False\<close> if it has the Layout B
  names and not those of Layout A, and leaves it as it was otherwise. In the disk family
  the variant is set but not read: the result of a data line does not depend on it.
\<close>

theorem header_sets_variant_in_any_family:
  "(strip line \<noteq> [] \<and> \<not> startswith line ''procs'' \<and> \<not> startswith line ''disk'' \<longrightarrow>
      buff_cache (fst (parse_line U raw st (PyStr line))) =
        (if layout_a line then Some True
         else if layout_b line then Some False
         else buff_cache st)) \<and>
   (flag (disk st) \<and> \<not> flag (procs st) \<longrightarrow>
      data_result U raw (st\<lparr>buff_cache := b\<rparr>) line' = data_result U raw st line')"
  using parse_line_header_state[of line U raw st] disk_record_ignores_variant[of st U raw b line']
  by (simp add: set_tz_buff_cache)

text \<open>
  The theorem in a disk-family state: a Layout B header sets the variant to \<open>False\<close>,
  and a disk data line gives the same result with and without it.
\<close>

theorem header_sets_variant_in_any_family_witness:
  "buff_cache (fst (parse_line demo_utils False (init\<lparr>disk := Some True, tstamp := Some False\<rparr>)
      (PyStr ''swpd free inact active''))) = Some False \<and>
   data_result demo_utils False (init\<lparr>disk := Some True, tstamp := Some False, buff_cache := Some False\<rparr>)
      ''sda 1 2 3 4 5 6 7 8 9 10'' =
   data_result demo_utils False (init\<lparr>disk := Some True, tstamp := Some False\<rparr>)
      ''sda 1 2 3 4 5 6 7 8 9 10''"
proof -
  let ?st = "init\<lparr>disk := Some True, tstamp := Some False\<rparr>"
  have h: "strip ''swpd free inact active'' \<noteq> [] \<and>
           \<not> startswith ''swpd free inact active'' ''procs'' \<and>
           \<not> startswith ''swpd free inact active'' ''disk''" by code_simp
  have l: "\<not> layout_a ''swpd free inact active''" "layout_b ''swpd free inact active''"
    by code_simp+
  have f: "flag (disk ?st) \<and> \<not> flag (procs ?st)" by (simp add: init_def)
  from header_sets_variant_in_any_family[where line = "''swpd free inact active''"
        and U = demo_utils and raw = False and st = ?st and b = "Some False"
        and line' = "''sda 1 2 3 4 5 6 7 8 9 10''"] h l f
  show ?thesis by simp
qed

text \<open>
  Claim C7 as stated fails: after a disk marker, a line with the Layout A column names
  sets the variant.
\<close>

theorem disk_stream_sets_variant_counterexample:
  "flag (disk (final_state (parse_loop demo_utils False True init
      [PyStr ''disk- ------------reads------------'',
       PyStr '' r  b   swpd   free   buff  cache   si   so'']))) \<and>
   buff_cache (final_state (parse_loop demo_utils False True init
      [PyStr ''disk- ------------reads------------'',
       PyStr '' r  b   swpd   free   buff  cache   si   so''])) = Some True"
  by code_simp

subsection \<open>Claim C8: input that is not text\<close>

text \<open>
  Claim C8, as amended. The parser does not apply one severity to invalid input: the
  two guards of \<open>parse\<close> treat the two cases differently. What holds: an input that
  is not iterable, or is a \<open>str\<close> or \<open>bytes\<close>, raises \<open>TypeError\<close> before any line
  is read, whatever the flags; an element that is not a \<open>str\<close> raises \<open>TypeError\<close>
  inside the \<open>try\<close> block of its line, where the handler of the loop catches it, and
  leaves the state as it was. With \<open>ignore_exceptions=False\<close> such an element ends
  the stream. With \<open>ignore_exceptions=True\<close> a \<open>bytes\<close> element is one inline Error
  value between the values of the lines before and after it, and the stream runs to the
  end of the input.
\<close>

theorem input_faults_two_severities:
  "parse U NotIterable raw quiet ign =
     ([], Raised (TypeError ''Input data must be a non-string iterable object.'')) \<and>
   parse U (DataStr s) raw quiet ign =
     ([], Raised (TypeError ''Input data must be a non-string iterable object.'')) \<and>
   parse U DataBytes raw quiet ign =
     ([], Raised (TypeError ''Input data must be a non-string iterable object.'')) \<and>
   parse_line U raw st (PyBytes b) = (st, Inl (TypeError ''Input line must be a 'str' object.'')) \<and>
   parse_line U raw st PyOther = (st, Inl (TypeError ''Input line must be a 'str' object.'')) \<and>
   parse_loop U raw False st (PyBytes b # rest) =
     (st, [], Raised (TypeError ''Input line must be a 'str' object.'')) \<and>
   parse_loop U raw False st (PyOther # rest) =
     (st, [], Raised (TypeError ''Input line must be a 'str' object.'')) \<and>
   parse_loop U raw True st (PyBytes b # rest) =
     yield (Error (TypeError ''Input line must be a 'str' object.'') (PyBytes b))
           (parse_loop U raw True st rest) \<and>
   fst (parse U (Iterable (pre @ PyBytes b # post)) raw quiet True) =
     fst (parse U (Iterable pre) raw quiet True) @
     Error (TypeError ''Input line must be a 'str' object.'') (PyBytes b) #
     outputs (parse_loop U raw True (final_state (parse_loop U raw True init pre)) post) \<and>
   snd (parse U (Iterable (pre @ PyBytes b # post)) raw quiet True) = Exhausted"
proof -
  let ?e = "TypeError ''Input line must be a 'str' object.''"
  have pb: "parse_line U raw s (PyBytes b) = (s, Inl ?e)" for s
    by (rule parse_line_other(2))
  have po: "parse_line U raw st PyOther = (st, Inl ?e)"
    by (rule parse_line_other(1))
  have c6: "parse_loop U raw False st (PyBytes b # rest) = (st, [], Raised ?e)"
    using parse_loop_handled[OF pb[of st], where ign = False and ls = rest] by (simp add: handled_simps)
  have c7: "parse_loop U raw False st (PyOther # rest) = (st, [], Raised ?e)"
    using parse_loop_handled[OF po, where ign = False and ls = rest] by (simp add: handled_simps)
  have c8: "parse_loop U raw True st (PyBytes b # rest) =
     yield (Error ?e (PyBytes b)) (parse_loop U raw True st rest)"
    using parse_loop_handled[OF pb[of st], where ign = True and ls = rest] by (simp add: handled_simps)
  have "snd (parse_line U raw (final_state (parse_loop U raw True init pre)) (PyBytes b)) = Inl ?e"
    by (simp add: pb)
  from inline_fault_outputs[OF this, of post]
  have c9: "fst (parse U (Iterable (pre @ PyBytes b # post)) raw quiet True) =
     fst (parse U (Iterable pre) raw quiet True) @ Error ?e (PyBytes b) #
     outputs (parse_loop U raw True (final_state (parse_loop U raw True init pre)) post)"
    by (simp add: parse_iterable outputs_def)
  have c10: "snd (parse U (Iterable (pre @ PyBytes b # post)) raw quiet True) = Exhausted"
    using inline_ending[of U raw init "pre @ PyBytes b # post"]
    by (simp add: parse_iterable ending_of_def)
  have c1: "parse U NotIterable raw quiet ign =
     ([], Raised (TypeError ''Input data must be a non-string iterable object.''))"
    "parse U (DataStr s) raw quiet ign =
     ([], Raised (TypeError ''Input data must be a non-string iterable object.''))"
    "parse U DataBytes raw quiet ign =
     ([], Raised (TypeError ''Input data must be a non-string iterable object.''))"
    by (simp_all add: parse_not_iterable)
  from c1 pb[of st] po c6 c7 c8 c9 c10 show ?thesis by (intro conjI)
qed

text \<open>The theorem at an input whose second element is a \<open>bytes\<close> object.\<close>

theorem input_faults_two_severities_witness:
  "parse demo_utils NotIterable True False True =
     ([], Raised (TypeError ''Input data must be a non-string iterable object.'')) \<and>
   parse demo_utils (Iterable [PyStr ''procs'', PyBytes ''2 0'', PyStr ''x'']) True False True =
     ([Error (TypeError ''Input line must be a 'str' object.'') (PyBytes ''2 0''),
       Error IndexError (PyStr ''x'')], Exhausted)"
proof -
  have p: "fst (parse demo_utils (Iterable [PyStr ''procs'']) True False True) = []"
          "outputs (parse_loop demo_utils True True
             (final_state (parse_loop demo_utils True True init [PyStr ''procs''])) [PyStr ''x''])
           = [Error IndexError (PyStr ''x'')]"
    by code_simp+
  note inst = input_faults_two_severities[where U = demo_utils and raw = True and quiet = False
      and ign = True and b = "''2 0''" and pre = "[PyStr ''procs'']" and post = "[PyStr ''x'']"]
  have a: "parse demo_utils NotIterable True False True =
     ([], Raised (TypeError ''Input data must be a non-string iterable object.''))"
    using inst by (rule conjunct1)
  have o: "fst (parse demo_utils (Iterable [PyStr ''procs'', PyBytes ''2 0'', PyStr ''x''])
              True False True) =
     [Error (TypeError ''Input line must be a 'str' object.'') (PyBytes ''2 0''),
      Error IndexError (PyStr ''x'')]"
    using inst[THEN conjunct2, THEN conjunct2, THEN conjunct2, THEN conjunct2, THEN conjunct2,
               THEN conjunct2, THEN conjunct2, THEN conjunct2, THEN conjunct1]
    by (simp add: p)
  have e: "snd (parse demo_utils (Iterable [PyStr ''procs'', PyBytes ''2 0'', PyStr ''x''])
              True False True) = Exhausted"
    using inst[THEN conjunct2, THEN conjunct2, THEN conjunct2, THEN conjunct2, THEN conjunct2,
               THEN conjunct2, THEN conjunct2, THEN conjunct2, THEN conjunct2]
    by simp
  from a o e show ?thesis by (simp add: prod_eq_iff)
qed

text \<open>
  Claim C8 as stated fails: under the same flags, an input that is not iterable is a
  hard failure with no value, and a \<open>bytes\<close> element is an inline Error followed by the
  record of the next line.
\<close>

theorem mixed_severity_counterexample:
  "parse demo_utils NotIterable False False True =
     ([], Raised (TypeError ''Input data must be a non-string iterable object.'')) \<and>
   parse demo_utils
     (Iterable [PyBytes ''procs'', PyStr ''disk'', PyStr ''sda 1 2 3 4 5 6 7 8 9 10''])
     False False True =
     ([Error (TypeError ''Input line must be a 'str' object.'') (PyBytes ''procs''),
       Success [(''disk'', PStr ''sda''), (''total_reads'', PInt 1), (''merged_reads'', PInt 2),
         (''sectors_read'', PInt 3), (''reading_ms'', PInt 4), (''total_writes'', PInt 5),
         (''merged_writes'', PInt 6), (''sectors_written'', PInt 7), (''writing_ms'', PInt 8),
         (''current_io'', PInt 9), (''io_seconds'', PInt 10), (''timestamp'', PNone),
         (''timezone'', PNone)]], Exhausted)"
  by code_simp

subsection \<open>Claim C9: normalizing twice\<close>

text \<open>
  Claim C9. If the normalization step \<open>_process\<close> succeeds on a record and gives
  \<open>r\<close>, then applying it to \<open>r\<close> again succeeds and gives \<open>r\<close> itself: every field
  of \<open>int_list\<close>, already an integer or null, is left as it is (and so are the other
  fields, the two epoch fields included).
\<close>

theorem normalization_idempotent:
  "process U d = Inr r \<longrightarrow>
     process U r = Inr r \<and>
     (\<forall>k \<in> set int_list. \<forall>r'. process U r = Inr r' \<longrightarrow> map_of r' k = map_of r k)"
  using process_idem[of U d r] by auto

text \<open>
  The theorem at a disk record with a timestamp: its normalization, normalized again.
\<close>

theorem normalization_idempotent_witness:
  "process demo_utils
     [(''disk'', PStr ''sda''), (''total_reads'', PInt 12), (''merged_reads'', PNone),
      (''timestamp'', PStr ''2021-09-16 20:33:13''), (''timezone'', PStr ''UTC''),
      (''epoch'', PInt 0), (''epoch_utc'', PInt 0)] =
   Inr [(''disk'', PStr ''sda''), (''total_reads'', PInt 12), (''merged_reads'', PNone),
      (''timestamp'', PStr ''2021-09-16 20:33:13''), (''timezone'', PStr ''UTC''),
      (''epoch'', PInt 0), (''epoch_utc'', PInt 0)]"
proof -
  have h: "process demo_utils
     [(''disk'', PStr ''sda''), (''total_reads'', PStr ''12''), (''merged_reads'', PNone),
      (''timestamp'', PStr ''2021-09-16 20:33:13''), (''timezone'', PStr ''UTC'')] =
   Inr [(''disk'', PStr ''sda''), (''total_reads'', PInt 12), (''merged_reads'', PNone),
      (''timestamp'', PStr ''2021-09-16 20:33:13''), (''timezone'', PStr ''UTC''),
      (''epoch'', PInt 0), (''epoch_utc'', PInt 0)]"
    by code_simp
  from normalization_idempotent[THEN mp, OF h] show ?thesis by (rule conjunct1)
qed

subsection \<open>Claim C10: a data line before any variant header\<close>

text \<open>
  Claim C10, as amended. In the process family with the variant still unset, a data
  line with at least the required number of tokens is read with the INACTIVE\_ACTIVE
  assignment. In raw mode it yields a Success record with \<open>inactive_mem\<close> and
  \<open>active_mem\<close> holding tokens 4 and 5 and \<open>buffer_mem\<close> and \<open>cache_mem\<close> null. After
  normalization it yields a Success record exactly when normalization does not raise,
  that is when the converter raises on none of the 17 numeric tokens and the timestamp,
  if the column is on, resolves; \<open>inactive_mem\<close> and \<open>active_mem\<close> then hold the
  integers tokens 4 and 5 denote (null for a token that denotes none) and \<open>buffer_mem\<close>
  and \<open>cache_mem\<close> are null. When normalization raises, the line is handled as a fault:
  an inline Error with \<open>ignore_exceptions=True\<close>, the end of the stream otherwise.
\<close>

theorem unset_variant_defaults_to_inactive:
  assumes "flag (procs st)" "\<not> flag (disk st)" "buff_cache st = None"
    and "data_line st line"
  shows
   "parse_loop U True ign st (PyStr line # rest) =
      yield (Success (procs_record st (split (Some 17) (strip line))))
            (parse_loop U True ign st rest) \<and>
    map_of (procs_record st (split (Some 17) (strip line))) ''inactive_mem'' =
      Some (PStr (split (Some 17) (strip line) ! 4)) \<and>
    map_of (procs_record st (split (Some 17) (strip line))) ''active_mem'' =
      Some (PStr (split (Some 17) (strip line) ! 5)) \<and>
    map_of (procs_record st (split (Some 17) (strip line))) ''buffer_mem'' = Some PNone \<and>
    map_of (procs_record st (split (Some 17) (strip line))) ''cache_mem'' = Some PNone \<and>
    (normalizable U st line \<longrightarrow>
       (\<exists>n. process U (procs_record st (split (Some 17) (strip line))) = Inr n \<and>
            parse_loop U False ign st (PyStr line # rest) =
              yield (Success n) (parse_loop U False ign st rest) \<and>
            map_of n ''inactive_mem'' =
              Some (emitted_value U False (split (Some 17) (strip line) ! 4)) \<and>
            map_of n ''active_mem'' =
              Some (emitted_value U False (split (Some 17) (strip line) ! 5)) \<and>
            map_of n ''buffer_mem'' = Some PNone \<and> map_of n ''cache_mem'' = Some PNone)) \<and>
    (\<not> normalizable U st line \<longrightarrow>
       (\<exists>e. process U (procs_record st (split (Some 17) (strip line))) = Inl e \<and>
            parse_loop U False ign st (PyStr line # rest) =
              (if ign then yield (Error e (PyStr line)) (parse_loop U False ign st rest)
               else (st, [], Raised e))))"
proof -
  let ?toks = "split (Some 17) (strip line)"
  have fam: "(flag (procs st) \<and> \<not> flag (disk st)) \<or> (\<not> flag (procs st) \<and> flag (disk st))"
    using assms by simp
  have fr: "family_record st line = procs_record st ?toks"
    using assms by (simp add: family_record_def)
  have nf: "\<not> flag (buff_cache st)" using assms(3) by simp
  have c1: "parse_loop U True ign st (PyStr line # rest) =
      yield (Success (procs_record st ?toks)) (parse_loop U True ign st rest)"
    using data_line_raw[OF fam assms(4), of U ign rest] by (simp only: fr)
  have c2: "map_of (procs_record st ?toks) ''inactive_mem'' = Some (PStr (?toks ! 4))"
           "map_of (procs_record st ?toks) ''active_mem'' = Some (PStr (?toks ! 5))"
           "map_of (procs_record st ?toks) ''buffer_mem'' = Some PNone"
           "map_of (procs_record st ?toks) ''cache_mem'' = Some PNone"
    using nf by (simp_all add: procs_record_mem)
  have c3: "normalizable U st line \<longrightarrow>
       (\<exists>n. process U (procs_record st ?toks) = Inr n \<and>
            parse_loop U False ign st (PyStr line # rest) =
              yield (Success n) (parse_loop U False ign st rest) \<and>
            map_of n ''inactive_mem'' = Some (emitted_value U False (?toks ! 4)) \<and>
            map_of n ''active_mem'' = Some (emitted_value U False (?toks ! 5)) \<and>
            map_of n ''buffer_mem'' = Some PNone \<and> map_of n ''cache_mem'' = Some PNone)"
  proof
    assume "normalizable U st line"
    from normalizable_step(1)[OF fam assms(4) this, of ign rest]
    obtain n where n: "process U (procs_record st ?toks) = Inr n"
      and s: "parse_loop U False ign st (PyStr line # rest) =
              yield (Success n) (parse_loop U False ign st rest)"
      unfolding fr by blast
    have r: "if False then n = procs_record st ?toks else process U (procs_record st ?toks) = Inr n"
      using n by simp
    note f = emitted_field[OF r]
    have "map_of n ''inactive_mem'' = Some (emitted_value U False (?toks ! 4)) \<and>
          map_of n ''active_mem'' = Some (emitted_value U False (?toks ! 5)) \<and>
          map_of n ''buffer_mem'' = Some PNone \<and> map_of n ''cache_mem'' = Some PNone"
      using f[OF procs_record_mem(1) mem_keys_int_list(1)] f[OF procs_record_mem(2) mem_keys_int_list(2)]
            f[OF procs_record_mem(3) mem_keys_int_list(3)] f[OF procs_record_mem(4) mem_keys_int_list(4)]
            nf
      by simp
    with n s show "\<exists>n. process U (procs_record st ?toks) = Inr n \<and>
            parse_loop U False ign st (PyStr line # rest) =
              yield (Success n) (parse_loop U False ign st rest) \<and>
            map_of n ''inactive_mem'' = Some (emitted_value U False (?toks ! 4)) \<and>
            map_of n ''active_mem'' = Some (emitted_value U False (?toks ! 5)) \<and>
            map_of n ''buffer_mem'' = Some PNone \<and> map_of n ''cache_mem'' = Some PNone"
      by blast
  qed
  have c4: "\<not> normalizable U st line \<longrightarrow>
       (\<exists>e. process U (procs_record st ?toks) = Inl e \<and>
            parse_loop U False ign st (PyStr line # rest) =
              (if ign then yield (Error e (PyStr line)) (parse_loop U False ign st rest)
               else (st, [], Raised e)))"
  proof
    assume "\<not> normalizable U st line"
    from normalizable_step(2)[OF fam assms(4) this, of ign rest]
    show "\<exists>e. process U (procs_record st ?toks) = Inl e \<and>
            parse_loop U False ign st (PyStr line # rest) =
              (if ign then yield (Error e (PyStr line)) (parse_loop U False ign st rest)
               else (st, [], Raised e))"
      unfolding fr by (cases ign) (auto simp: handled_simps)
  qed
  from c1 c2 c3 c4 show ?thesis by (intro conjI)
qed

text \<open>
  The theorem in the state after a process marker with no timestamp column: a line of
  17 integers, raw and normalized, and a line whose token 4 is no integer, normalized
  with the converter that raises.
\<close>

theorem unset_variant_defaults_to_inactive_witness:
  "outputs (parse_loop demo_utils True True (init\<lparr>procs := Some True, tstamp := Some False\<rparr>)
      [PyStr ''2 0 0 27 21 74 0 0 1 3 29 57 0 0 99 0 0'']) =
     [Success
       [(''runnable_procs'', PStr ''2''), (''uninterruptible_sleeping_procs'', PStr ''0''),
        (''virtual_mem_used'', PStr ''0''), (''free_mem'', PStr ''27''),
        (''buffer_mem'', PNone), (''cache_mem'', PNone),
        (''inactive_mem'', PStr ''21''), (''active_mem'', PStr ''74''),
        (''swap_in'', PStr ''0''), (''swap_out'', PStr ''0''), (''blocks_in'', PStr ''1''),
        (''blocks_out'', PStr ''3''), (''interrupts'', PStr ''29''),
        (''context_switches'', PStr ''57''), (''user_time'', PStr ''0''),
        (''system_time'', PStr ''0''), (''idle_time'', PStr ''99''),
        (''io_wait_time'', PStr ''0''), (''stolen_time'', PStr ''0''),
        (''timestamp'', PNone), (''timezone'', PNone)]] \<and>
   outputs (parse_loop demo_utils False True (init\<lparr>procs := Some True, tstamp := Some False\<rparr>)
      [PyStr ''2 0 0 27 21 74 0 0 1 3 29 57 0 0 99 0 0'']) =
     [Success
       [(''runnable_procs'', PInt 2), (''uninterruptible_sleeping_procs'', PInt 0),
        (''virtual_mem_used'', PInt 0), (''free_mem'', PInt 27),
        (''buffer_mem'', PNone), (''cache_mem'', PNone),
        (''inactive_mem'', PInt 21), (''active_mem'', PInt 74),
        (''swap_in'', PInt 0), (''swap_out'', PInt 0), (''blocks_in'', PInt 1),
        (''blocks_out'', PInt 3), (''interrupts'', PInt 29),
        (''context_switches'', PInt 57), (''user_time'', PInt 0),
        (''system_time'', PInt 0), (''idle_time'', PInt 99),
        (''io_wait_time'', PInt 0), (''stolen_time'', PInt 0),
        (''timestamp'', PNone), (''timezone'', PNone)]] \<and>
   outputs (parse_loop demo_utils False True (init\<lparr>procs := Some True, tstamp := Some False\<rparr>)
      [PyStr ''2 0 0 27 x 74 0 0 1 3 29 57 0 0 99 0 0'']) =
     [Error (ConversionFault ''x'') (PyStr ''2 0 0 27 x 74 0 0 1 3 29 57 0 0 99 0 0'')]"
proof -
  let ?st = "init\<lparr>procs := Some True, tstamp := Some False\<rparr>"
  let ?line = "''2 0 0 27 21 74 0 0 1 3 29 57 0 0 99 0 0''"
  let ?bad = "''2 0 0 27 x 74 0 0 1 3 29 57 0 0 99 0 0''"
  let ?raw = "[(''runnable_procs'', PStr ''2''), (''uninterruptible_sleeping_procs'', PStr ''0''),
        (''virtual_mem_used'', PStr ''0''), (''free_mem'', PStr ''27''),
        (''buffer_mem'', PNone), (''cache_mem'', PNone),
        (''inactive_mem'', PStr ''21''), (''active_mem'', PStr ''74''),
        (''swap_in'', PStr ''0''), (''swap_out'', PStr ''0''), (''blocks_in'', PStr ''1''),
        (''blocks_out'', PStr ''3''), (''interrupts'', PStr ''29''),
        (''context_switches'', PStr ''57''), (''user_time'', PStr ''0''),
        (''system_time'', PStr ''0''), (''idle_time'', PStr ''99''),
        (''io_wait_time'', PStr ''0''), (''stolen_time'', PStr ''0''),
        (''timestamp'', PNone), (''timezone'', PNone)]"
  let ?norm = "[(''runnable_procs'', PInt 2), (''uninterruptible_sleeping_procs'', PInt 0),
        (''virtual_mem_used'', PInt 0), (''free_mem'', PInt 27),
        (''buffer_mem'', PNone), (''cache_mem'', PNone),
        (''inactive_mem'', PInt 21), (''active_mem'', PInt 74),
        (''swap_in'', PInt 0), (''swap_out'', PInt 0), (''blocks_in'', PInt 1),
        (''blocks_out'', PInt 3), (''interrupts'', PInt 29),
        (''context_switches'', PInt 57), (''user_time'', PInt 0),
        (''system_time'', PInt 0), (''idle_time'', PInt 99),
        (''io_wait_time'', PInt 0), (''stolen_time'', PInt 0),
        (''timestamp'', PNone), (''timezone'', PNone)]"
  have f: "flag (procs ?st)" "\<not> flag (disk ?st)" "buff_cache ?st = None"
    by (simp_all add: init_def)
  have d: "data_line ?st ?line" by code_simp
  have db: "data_line ?st ?bad" by code_simp
  have rc: "procs_record ?st (split (Some 17) (strip ?line)) = ?raw" by code_simp
  have pr: "process demo_utils ?raw = Inr ?norm" by code_simp
  have nz: "normalizable demo_utils ?st ?line" by code_simp
  have nb: "\<not> normalizable demo_utils ?st ?bad" by code_simp
  have pb: "process demo_utils (procs_record ?st (split (Some 17) (strip ?bad))) =
            Inl (ConversionFault ''x'')" by code_simp
  note good = unset_variant_defaults_to_inactive[OF f d, where U = demo_utils and ign = True
      and rest = "[]"]
  note bad = unset_variant_defaults_to_inactive[OF f db, where U = demo_utils and ign = True
      and rest = "[]"]
  have o1: "outputs (parse_loop demo_utils True True ?st [PyStr ?line]) = [Success ?raw]"
    using good[THEN conjunct1] by (simp add: rc)
  have o2: "outputs (parse_loop demo_utils False True ?st [PyStr ?line]) = [Success ?norm]"
    using good[THEN conjunct2, THEN conjunct2, THEN conjunct2, THEN conjunct2, THEN conjunct2,
               THEN conjunct1, THEN mp, OF nz]
    by (auto simp: rc pr)
  have o3: "outputs (parse_loop demo_utils False True ?st [PyStr ?bad]) =
     [Error (ConversionFault ''x'') (PyStr ?bad)]"
    using bad[THEN conjunct2, THEN conjunct2, THEN conjunct2, THEN conjunct2, THEN conjunct2,
               THEN conjunct2, THEN mp, OF nb]
    by (auto simp: pb)
  from o1 o2 o3 show ?thesis by (intro conjI)
qed

text \<open>
  Claim C10 as stated fails in normalized mode: a line with enough tokens whose token 4
  is no integer, before any variant header. With the converter that raises, the line is
  an Error; with the converter that returns \<open>None\<close>, it is a Success whose
  \<open>inactive_mem\<close> is null, not token 4.
\<close>

theorem unset_variant_line_counterexample:
  "parse demo_utils
     (Iterable [PyStr ''procs'', PyStr ''2 0 0 27 x 74 0 0 1 3 29 57 0 0 99 0 0''])
     False False True
   = ([Error (ConversionFault ''x'') (PyStr ''2 0 0 27 x 74 0 0 1 3 29 57 0 0 99 0 0'')],
      Exhausted) \<and>
   parse tolerant_utils
     (Iterable [PyStr ''procs'', PyStr ''2 0 0 27 x 74 0 0 1 3 29 57 0 0 99 0 0''])
     False False True
   = ([Success
        [(''runnable_procs'', PInt 2), (''uninterruptible_sleeping_procs'', PInt 0),
         (''virtual_mem_used'', PInt 0), (''free_mem'', PInt 27),
         (''buffer_mem'', PNone), (''cache_mem'', PNone),
         (''inactive_mem'', PNone), (''active_mem'', PInt 74),
         (''swap_in'', PInt 0), (''swap_out'', PInt 0), (''blocks_in'', PInt 1),
         (''blocks_out'', PInt 3), (''interrupts'', PInt 29),
         (''context_switches'', PInt 57), (''user_time'', PInt 0),
         (''system_time'', PInt 0), (''idle_time'', PInt 99),
         (''io_wait_time'', PInt 0), (''stolen_time'', PInt 0),
         (''timestamp'', PNone), (''timezone'', PNone)]], Exhausted)"
  by code_simp

end
